theory Spec2Isabelle
  imports Main "HOL-Library.Word"
begin

section \<open>JavaScript strings and values\<close>

text \<open>
  A JavaScript string is a sequence of UTF-16 code units. String literals of the
  source are ASCII and are written \<open>js ''...''\<close>.
\<close>

type_synonym jschar = "16 word"
type_synonym jsstring = "jschar list"

definition js :: "string \<Rightarrow> jsstring" where
  "js s = map of_char s"

text \<open>
  A JavaScript number is an IEEE-754 binary64; its 64 bits are kept as they are. The
  conversions between numbers and decimal text are floating-point algorithms of the
  runtime and are taken as parameters.
\<close>

type_synonym jsnumber = "64 word"

record runtime =
  StringToNumber :: "jsstring \<Rightarrow> jsnumber"
  NumberToString :: "jsnumber \<Rightarrow> jsstring"

definition isFinite :: "jsnumber \<Rightarrow> bool" where
  "isFinite x = (take_bit 11 (drop_bit 52 x) \<noteq> (2047 :: jsnumber))"

text \<open>
  The values \<open>JSON.parse\<close> can return: null, booleans, numbers, strings, arrays and
  plain objects. An object is the list of its own properties in the order in which
  JavaScript enumerates them.
\<close>

datatype jsval =
    JNull
  | JBool bool
  | JNum jsnumber
  | JStr jsstring
  | JArr "jsval list"
  | JObj "(jsstring \<times> jsval) list"

abbreviation (input) QUOTE :: jschar where "QUOTE \<equiv> 0x22"
abbreviation (input) BACKSLASH :: jschar where "BACKSLASH \<equiv> 0x5C"
abbreviation (input) COMMA :: jschar where "COMMA \<equiv> 0x2C"
abbreviation (input) COLON :: jschar where "COLON \<equiv> 0x3A"
abbreviation (input) LBRACK :: jschar where "LBRACK \<equiv> 0x5B"
abbreviation (input) RBRACK :: jschar where "RBRACK \<equiv> 0x5D"
abbreviation (input) LBRACE :: jschar where "LBRACE \<equiv> 0x7B"
abbreviation (input) RBRACE :: jschar where "RBRACE \<equiv> 0x7D"

definition is_digit :: "jschar \<Rightarrow> bool" where
  "is_digit c = (0x30 \<le> c \<and> c \<le> 0x39)"

subsection \<open>Property order of objects\<close>

text \<open>
  An own property whose key is an array index (the canonical decimal form of an integer
  below \<open>2^32 - 1\<close>) is enumerated before every other key, in ascending numeric order;
  the other keys follow in creation order. Defining a property that exists replaces
  its value where it stands.
\<close>

definition dec_value :: "jsstring \<Rightarrow> nat" where
  "dec_value k = foldl (\<lambda>n d. 10 * n + (unat d - 48)) 0 k"

definition is_array_index :: "jsstring \<Rightarrow> bool" where
  "is_array_index k =
     (k \<noteq> [] \<and> list_all is_digit k \<and> (if hd k = 0x30 then k = [0x30] else True)
      \<and> length k \<le> 10 \<and> dec_value k < 4294967295)"

fun insert_index :: "jsstring \<Rightarrow> jsval \<Rightarrow> (jsstring \<times> jsval) list \<Rightarrow> (jsstring \<times> jsval) list" where
  "insert_index k v [] = [(k, v)]"
| "insert_index k v ((k', v') # kvs) =
     (if is_array_index k' \<and> dec_value k' < dec_value k
      then (k', v') # insert_index k v kvs
      else (k, v) # (k', v') # kvs)"

definition obj_put :: "jsstring \<Rightarrow> jsval \<Rightarrow> (jsstring \<times> jsval) list \<Rightarrow> (jsstring \<times> jsval) list" where
  "obj_put k v kvs =
     (if map_of kvs k \<noteq> None
      then map (\<lambda>(k', v'). if k' = k then (k', v) else (k', v')) kvs
      else if is_array_index k then insert_index k v kvs
      else kvs @ [(k, v)])"

section \<open>\<open>JSON.parse\<close>\<close>

definition is_json_ws :: "jschar \<Rightarrow> bool" where
  "is_json_ws c = (c = 0x20 \<or> c = 0x09 \<or> c = 0x0A \<or> c = 0x0D)"

definition skip_ws :: "jsstring \<Rightarrow> jsstring" where
  "skip_ws s = dropWhile is_json_ws s"

subsection \<open>String literals\<close>

definition unhex :: "jschar \<Rightarrow> nat option" where
  "unhex c =
     (if 0x30 \<le> c \<and> c \<le> 0x39 then Some (unat c - 48)
      else if 0x61 \<le> c \<and> c \<le> 0x66 then Some (unat c - 87)
      else if 0x41 \<le> c \<and> c \<le> 0x46 then Some (unat c - 55)
      else None)"

definition unhex4 :: "jschar \<Rightarrow> jschar \<Rightarrow> jschar \<Rightarrow> jschar \<Rightarrow> jschar option" where
  "unhex4 a b c d =
     (case (unhex a, unhex b, unhex c, unhex d) of
        (Some x, Some y, Some z, Some w) \<Rightarrow> Some (of_nat (4096 * x + 256 * y + 16 * z + w))
      | _ \<Rightarrow> None)"

definition unescape :: "jschar \<Rightarrow> jschar option" where
  "unescape e =
     (if e = QUOTE then Some QUOTE
      else if e = BACKSLASH then Some BACKSLASH
      else if e = 0x2F then Some 0x2F
      else if e = 0x62 then Some 0x08
      else if e = 0x66 then Some 0x0C
      else if e = 0x6E then Some 0x0A
      else if e = 0x72 then Some 0x0D
      else if e = 0x74 then Some 0x09
      else None)"

text \<open>
  The characters of a string literal after its opening quote, up to and including the
  closing quote: the decoded string and the rest of the input.
\<close>

fun parse_chars :: "jsstring \<Rightarrow> (jsstring \<times> jsstring) option" where
  "parse_chars [] = None"
| "parse_chars (c # cs) =
     (if c = QUOTE then Some ([], cs)
      else if c = BACKSLASH then
        (case cs of
           [] \<Rightarrow> None
         | e # r \<Rightarrow>
             if e = 0x75 then
               (case r of
                  h1 # h2 # h3 # h4 # r' \<Rightarrow>
                    (case unhex4 h1 h2 h3 h4 of
                       None \<Rightarrow> None
                     | Some u \<Rightarrow> map_option (\<lambda>(s, t). (u # s, t)) (parse_chars r'))
                | _ \<Rightarrow> None)
             else
               (case unescape e of
                  None \<Rightarrow> None
                | Some u \<Rightarrow> map_option (\<lambda>(s, t). (u # s, t)) (parse_chars r)))
      else if c < 0x20 then None
      else map_option (\<lambda>(s, t). (c # s, t)) (parse_chars cs))"

subsection \<open>Number literals\<close>

definition lex_int :: "jsstring \<Rightarrow> (jsstring \<times> jsstring) option" where
  "lex_int s =
     (case s of
        [] \<Rightarrow> None
      | d # r \<Rightarrow>
          if d = 0x30 then Some ([d], r)
          else if is_digit d then Some (d # takeWhile is_digit r, dropWhile is_digit r)
          else None)"

definition lex_frac :: "jsstring \<Rightarrow> (jsstring \<times> jsstring) option" where
  "lex_frac s =
     (case s of
        [] \<Rightarrow> Some ([], s)
      | c # r \<Rightarrow>
          if c = 0x2E then
            (if takeWhile is_digit r = [] then None
             else Some (c # takeWhile is_digit r, dropWhile is_digit r))
          else Some ([], s))"

definition lex_sign :: "jsstring \<Rightarrow> jsstring \<times> jsstring" where
  "lex_sign s =
     (case s of
        [] \<Rightarrow> ([], s)
      | c # r \<Rightarrow> if c = 0x2B \<or> c = 0x2D then ([c], r) else ([], s))"

definition lex_exp :: "jsstring \<Rightarrow> (jsstring \<times> jsstring) option" where
  "lex_exp s =
     (case s of
        [] \<Rightarrow> Some ([], s)
      | c # r \<Rightarrow>
          if c = 0x65 \<or> c = 0x45 then
            (case lex_sign r of
               (sg, r') \<Rightarrow>
                 if takeWhile is_digit r' = [] then None
                 else Some (c # sg @ takeWhile is_digit r', dropWhile is_digit r'))
          else Some ([], s))"

definition lex_minus :: "jsstring \<Rightarrow> jsstring \<times> jsstring" where
  "lex_minus s =
     (case s of
        [] \<Rightarrow> ([], s)
      | c # r \<Rightarrow> if c = 0x2D then ([c], r) else ([], s))"

text \<open>The longest number literal at the head of the input: its text and the rest.\<close>

definition lex_number :: "jsstring \<Rightarrow> (jsstring \<times> jsstring) option" where
  "lex_number s =
     (case lex_minus s of
        (m, s0) \<Rightarrow>
          (case lex_int s0 of
             None \<Rightarrow> None
           | Some (i, s1) \<Rightarrow>
               (case lex_frac s1 of
                  None \<Rightarrow> None
                | Some (f, s2) \<Rightarrow>
                    (case lex_exp s2 of
                       None \<Rightarrow> None
                     | Some (e, s3) \<Rightarrow> Some (m @ i @ f @ e, s3)))))"

subsection \<open>Values\<close>

text \<open>
  The parser descends recursively. The recursion is on a fuel counter; running out of
  fuel is a result of its own, distinct from a syntax error (\<open>Malformed\<close>), and \<open>JSON_parse\<close> supplies
  enough fuel for its input.
\<close>

datatype 'a parse = OutOfFuel | Malformed | Parsed 'a jsstring

fun parse_value :: "runtime \<Rightarrow> nat \<Rightarrow> jsstring \<Rightarrow> jsval parse"
  and parse_elements :: "runtime \<Rightarrow> nat \<Rightarrow> jsval list \<Rightarrow> jsstring \<Rightarrow> (jsval list) parse"
  and parse_members ::
    "runtime \<Rightarrow> nat \<Rightarrow> (jsstring \<times> jsval) list \<Rightarrow> jsstring \<Rightarrow> ((jsstring \<times> jsval) list) parse"
where
  "parse_value rt 0 s = OutOfFuel"
| "parse_value rt (Suc n) s =
     (case s of
        [] \<Rightarrow> Malformed
      | c # cs \<Rightarrow>
          if c = LBRACK then
            (case skip_ws cs of
               [] \<Rightarrow> Malformed
             | d # ds \<Rightarrow>
                 if d = RBRACK then Parsed (JArr []) ds
                 else
                   (case parse_elements rt n [] (d # ds) of
                      Parsed xs r \<Rightarrow> Parsed (JArr xs) r
                    | OutOfFuel \<Rightarrow> OutOfFuel
                    | Malformed \<Rightarrow> Malformed))
          else if c = LBRACE then
            (case skip_ws cs of
               [] \<Rightarrow> Malformed
             | d # ds \<Rightarrow>
                 if d = RBRACE then Parsed (JObj []) ds
                 else
                   (case parse_members rt n [] (d # ds) of
                      Parsed kvs r \<Rightarrow> Parsed (JObj kvs) r
                    | OutOfFuel \<Rightarrow> OutOfFuel
                    | Malformed \<Rightarrow> Malformed))
          else if c = QUOTE then
            (case parse_chars cs of
               None \<Rightarrow> Malformed
             | Some (str, r) \<Rightarrow> Parsed (JStr str) r)
          else if take 4 s = js ''true'' then Parsed (JBool True) (drop 4 s)
          else if take 5 s = js ''false'' then Parsed (JBool False) (drop 5 s)
          else if take 4 s = js ''null'' then Parsed JNull (drop 4 s)
          else
            (case lex_number s of
               None \<Rightarrow> Malformed
             | Some (lx, r) \<Rightarrow> Parsed (JNum (StringToNumber rt lx)) r))"
| "parse_elements rt 0 acc s = OutOfFuel"
| "parse_elements rt (Suc n) acc s =
     (case parse_value rt n (skip_ws s) of
        Parsed v r \<Rightarrow>
          (case skip_ws r of
             [] \<Rightarrow> Malformed
           | d # ds \<Rightarrow>
               if d = COMMA then parse_elements rt n (acc @ [v]) ds
               else if d = RBRACK then Parsed (acc @ [v]) ds
               else Malformed)
      | OutOfFuel \<Rightarrow> OutOfFuel
      | Malformed \<Rightarrow> Malformed)"
| "parse_members rt 0 acc s = OutOfFuel"
| "parse_members rt (Suc n) acc s =
     (case skip_ws s of
        [] \<Rightarrow> Malformed
      | q # cs \<Rightarrow>
          if q \<noteq> QUOTE then Malformed
          else
            (case parse_chars cs of
               None \<Rightarrow> Malformed
             | Some (k, r) \<Rightarrow>
                 (case skip_ws r of
                    [] \<Rightarrow> Malformed
                  | c # r1 \<Rightarrow>
                      if c \<noteq> COLON then Malformed
                      else
                        (case parse_value rt n (skip_ws r1) of
                           Parsed v r2 \<Rightarrow>
                             (case skip_ws r2 of
                                [] \<Rightarrow> Malformed
                              | d # ds \<Rightarrow>
                                  if d = COMMA then parse_members rt n (obj_put k v acc) ds
                                  else if d = RBRACE then Parsed (obj_put k v acc) ds
                                  else Malformed)
                         | OutOfFuel \<Rightarrow> OutOfFuel
                         | Malformed \<Rightarrow> Malformed))))"

text \<open>
  \<open>JSON.parse(text)\<close>: \<open>None\<close> stands for the \<open>SyntaxError\<close> it throws. The whole text
  must be one value between optional white space.
\<close>

definition JSON_parse :: "runtime \<Rightarrow> jsstring \<Rightarrow> jsval option" where
  "JSON_parse rt s =
     (case parse_value rt (Suc (2 * length s)) (skip_ws s) of
        Parsed v r \<Rightarrow> if skip_ws r = [] then Some v else None
      | OutOfFuel \<Rightarrow> None
      | Malformed \<Rightarrow> None)"

section \<open>\<open>JSON.stringify\<close>\<close>

definition hexdigit :: "nat \<Rightarrow> jschar" where
  "hexdigit n = (if n < 10 then of_nat (48 + n) else of_nat (87 + n))"

definition unicode_escape :: "jschar \<Rightarrow> jsstring" where
  "unicode_escape c =
     (let n = unat c in
      [BACKSLASH, 0x75, hexdigit (n div 4096), hexdigit (n div 256 mod 16),
       hexdigit (n div 16 mod 16), hexdigit (n mod 16)])"

definition is_high_surrogate :: "jschar \<Rightarrow> bool" where
  "is_high_surrogate c = (0xD800 \<le> c \<and> c \<le> 0xDBFF)"

definition is_low_surrogate :: "jschar \<Rightarrow> bool" where
  "is_low_surrogate c = (0xDC00 \<le> c \<and> c \<le> 0xDFFF)"

definition quote_unit :: "jschar \<Rightarrow> jsstring" where
  "quote_unit c =
     (if c = 0x08 then [BACKSLASH, 0x62]
      else if c = 0x09 then [BACKSLASH, 0x74]
      else if c = 0x0A then [BACKSLASH, 0x6E]
      else if c = 0x0C then [BACKSLASH, 0x66]
      else if c = 0x0D then [BACKSLASH, 0x72]
      else if c = QUOTE then [BACKSLASH, QUOTE]
      else if c = BACKSLASH then [BACKSLASH, BACKSLASH]
      else if c < 0x20 then unicode_escape c
      else [c])"

text \<open>
  The body of a quoted string: a surrogate pair is copied, a lone surrogate is written
  as a \<open>\u\<close> escape, every other code unit is written by \<open>quote_unit\<close>.
\<close>

fun quote_chars :: "jsstring \<Rightarrow> jsstring" where
  "quote_chars [] = []"
| "quote_chars (c # cs) =
     (if is_high_surrogate c then
        (case cs of
           [] \<Rightarrow> unicode_escape c
         | d # ds \<Rightarrow>
             if is_low_surrogate d then c # d # quote_chars ds
             else unicode_escape c @ quote_chars cs)
      else if is_low_surrogate c then unicode_escape c @ quote_chars cs
      else quote_unit c @ quote_chars cs)"

definition quote_json :: "jsstring \<Rightarrow> jsstring" where
  "quote_json s = QUOTE # quote_chars s @ [QUOTE]"

fun ser :: "runtime \<Rightarrow> jsval \<Rightarrow> jsstring"
  and ser_elements :: "runtime \<Rightarrow> jsval list \<Rightarrow> jsstring"
  and ser_members :: "runtime \<Rightarrow> (jsstring \<times> jsval) list \<Rightarrow> jsstring"
where
  "ser rt JNull = js ''null''"
| "ser rt (JBool b) = (if b then js ''true'' else js ''false'')"
| "ser rt (JNum x) = (if isFinite x then NumberToString rt x else js ''null'')"
| "ser rt (JStr s) = quote_json s"
| "ser rt (JArr xs) = LBRACK # ser_elements rt xs @ [RBRACK]"
| "ser rt (JObj kvs) = LBRACE # ser_members rt kvs @ [RBRACE]"
| "ser_elements rt [] = []"
| "ser_elements rt [v] = ser rt v"
| "ser_elements rt (v # w # vs) = ser rt v @ COMMA # ser_elements rt (w # vs)"
| "ser_members rt [] = []"
| "ser_members rt [(k, v)] = quote_json k @ COLON # ser rt v"
| "ser_members rt ((k, v) # kv # kvs) =
     quote_json k @ COLON # ser rt v @ COMMA # ser_members rt (kv # kvs)"

text \<open>\<open>JSON.stringify(value)\<close> with no replacer and no indentation.\<close>

definition JSON_stringify :: "runtime \<Rightarrow> jsval \<Rightarrow> jsstring" where
  "JSON_stringify rt v = ser rt v"


section \<open>\<open>String\<close>, \<open>split\<close> and \<open>trim\<close>\<close>

text \<open>
  \<open>String(value)\<close> on a value that is not an \<open>Error\<close>. An array is joined with commas,
  null elements giving the empty string. A plain object inherits \<open>toString\<close> from
  \<open>Object.prototype\<close> and gives \<open>[object Object]\<close>, unless it has an own property
  \<open>toString\<close>: a data value is not callable, the inherited \<open>valueOf\<close> returns the
  object itself, and the conversion throws \<open>TypeError\<close> (\<open>None\<close>).
\<close>

fun ToString :: "runtime \<Rightarrow> jsval \<Rightarrow> jsstring option"
  and join_elements :: "runtime \<Rightarrow> jsval list \<Rightarrow> jsstring option"
where
  "ToString rt JNull = Some (js ''null'')"
| "ToString rt (JBool b) = Some (if b then js ''true'' else js ''false'')"
| "ToString rt (JNum x) = Some (NumberToString rt x)"
| "ToString rt (JStr s) = Some s"
| "ToString rt (JArr xs) = join_elements rt xs"
| "ToString rt (JObj kvs) =
     (if map_of kvs (js ''toString'') \<noteq> None then None else Some (js ''[object Object]''))"
| "join_elements rt [] = Some []"
| "join_elements rt (v # vs) =
     (case (if v = JNull then Some [] else ToString rt v) of
        None \<Rightarrow> None
      | Some s \<Rightarrow>
          if vs = [] then Some s
          else (case join_elements rt vs of None \<Rightarrow> None | Some t \<Rightarrow> Some (s @ COMMA # t)))"

text \<open>\<open>s.split(sep)\<close> for a separator of one code unit.\<close>

fun split_on :: "jschar \<Rightarrow> jsstring \<Rightarrow> jsstring list" where
  "split_on sep [] = [[]]"
| "split_on sep (c # cs) =
     (if c = sep then [] # split_on sep cs
      else (case split_on sep cs of
              [] \<Rightarrow> [[c]]
            | x # xs \<Rightarrow> (c # x) # xs))"

text \<open>The white space and line terminators that \<open>trim\<close> removes.\<close>

definition is_js_space :: "jschar \<Rightarrow> bool" where
  "is_js_space c =
     (c = 0x09 \<or> c = 0x0A \<or> c = 0x0B \<or> c = 0x0C \<or> c = 0x0D \<or> c = 0x20 \<or> c = 0xA0
      \<or> c = 0x1680 \<or> (0x2000 \<le> c \<and> c \<le> 0x200A) \<or> c = 0x2028 \<or> c = 0x2029
      \<or> c = 0x202F \<or> c = 0x205F \<or> c = 0x3000 \<or> c = 0xFEFF)"

definition trim :: "jsstring \<Rightarrow> jsstring" where
  "trim s = rev (dropWhile is_js_space (rev (dropWhile is_js_space s)))"

section \<open>Provisioning (\<open>sst.config.ts\<close>)\<close>

subsection \<open>Data\<close>

record StringEquals =
  aws_PrincipalOrgID :: "jsval list"

record Condition =
  ForAnyValue_StringEquals :: StringEquals

record Statement =
  Sid :: jsstring
  Effect :: jsstring
  Principal :: jsstring
  Action :: jsstring
  Resource :: jsstring
  Condition :: Condition

record ResourcePolicy =
  Version :: jsstring
  Statement :: "Statement list"

text \<open>
  The interface declares the organization identifiers as \<open>string[]\<close>; at run time the
  array holds whatever the allow-list holds, so its elements are values.
  The object that \<open>JSON.stringify\<close> sees has the properties in the order of the literal.
\<close>

definition json_of_statement :: "Statement \<Rightarrow> jsval" where
  "json_of_statement st =
     JObj [(js ''Sid'', JStr (Sid st)),
           (js ''Effect'', JStr (Effect st)),
           (js ''Principal'', JStr (Principal st)),
           (js ''Action'', JStr (Action st)),
           (js ''Resource'', JStr (Resource st)),
           (js ''Condition'',
            JObj [(js ''ForAnyValue:StringEquals'',
                   JObj [(js ''aws:PrincipalOrgID'',
                          JArr (aws_PrincipalOrgID (ForAnyValue_StringEquals (Condition st))))])])]"

definition json_of_policy :: "ResourcePolicy \<Rightarrow> jsval" where
  "json_of_policy p =
     JObj [(js ''Version'', JStr (Version p)),
           (js ''Statement'', JArr (map json_of_statement (Statement p)))]"

text \<open>
  \<open>process.env\<close> maps names to strings; the file system maps a path to the text that
  \<open>fs.readFileSync(path, "utf-8")\<close> returns, and is undefined where the call throws.
\<close>

type_synonym env = "jsstring \<rightharpoonup> jsstring"
type_synonym filesystem = "jsstring \<rightharpoonup> jsstring"

text \<open>A variable of the environment is truthy when it is set to a non-empty string.\<close>

definition truthy :: "jsstring option \<Rightarrow> bool" where
  "truthy v = (case v of None \<Rightarrow> False | Some s \<Rightarrow> s \<noteq> [])"

datatype exn = SystemError | SyntaxError | Error jsstring

datatype logarg = LStr jsstring | LVal jsval | LExn exn | LUndefined

datatype logline = ConsoleLog "logarg list" | ConsoleError "logarg list"

datatype exit = ProcessExit nat

record RestApiArgs =
  policy :: "jsstring option"

subsection \<open>Reading the allow-list\<close>

text \<open>The body of the \<open>try\<close> block: the exception it throws, or the array it leaves.\<close>

definition try_read :: "runtime \<Rightarrow> filesystem \<Rightarrow> jsstring \<Rightarrow> exn + jsval list" where
  "try_read rt fs path =
     (case fs path of
        None \<Rightarrow> Inl SystemError
      | Some data \<Rightarrow>
          (case JSON_parse rt data of
             None \<Rightarrow> Inl SyntaxError
           | Some v \<Rightarrow>
               (case v of
                  JArr xs \<Rightarrow> Inr xs
                | _ \<Rightarrow>
                    Inl (Error (js ''The ALLOWED_ACCOUNTS_FILE must contain a JSON array of account IDs.'')))))"

definition inline_accounts :: "jsstring \<Rightarrow> jsval list" where
  "inline_accounts s = map (\<lambda>x. JStr (trim x)) (split_on COMMA s)"

text \<open>
  The allow-list of \<open>run\<close>: the console output and either the exit of the process or
  the value of \<open>allowedAccounts\<close>.
\<close>

definition allowedAccounts :: "runtime \<Rightarrow> env \<Rightarrow> filesystem \<Rightarrow> logline list \<times> (exit + jsval list)" where
  "allowedAccounts rt env fs =
     (if truthy (env (js ''ALLOWED_ACCOUNTS_FILE'')) then
        (case try_read rt fs (the (env (js ''ALLOWED_ACCOUNTS_FILE''))) of
           Inl error \<Rightarrow>
             ([ConsoleError [LStr (js ''Error reading ALLOWED_ACCOUNTS_FILE:''), LExn error]],
              Inl (ProcessExit 1))
         | Inr xs \<Rightarrow> ([], Inr xs))
      else if truthy (env (js ''ALLOWED_ACCOUNTS'')) then
        ([], Inr (inline_accounts (the (env (js ''ALLOWED_ACCOUNTS'')))))
      else ([], Inr []))"

subsection \<open>Building and attaching the policy\<close>

definition build_policy :: "jsval list \<Rightarrow> ResourcePolicy option" where
  "build_policy accounts =
     (if length accounts > 0 then
        Some \<lparr>Version = js ''2012-10-17'',
              Statement =
                [\<lparr>Sid = js ''AllowAccessForAllowedAccounts'',
                  Effect = js ''Allow'',
                  Principal = js ''*'',
                  Action = js ''execute-api:Invoke'',
                  Resource = js ''*'',
                  Condition =
                    \<lparr>ForAnyValue_StringEquals = \<lparr>aws_PrincipalOrgID = accounts\<rparr>\<rparr>\<rparr>]\<rparr>
      else None)"

text \<open>
  The \<open>api\<close> transform: it receives the arguments of the REST API and the name of the
  component (its parameter \<open>opts\<close> is not used and is left out), and returns the
  arguments as it leaves them, its console output and its return value, which is of the
  one-valued type \<open>undefined\<close>. The policy is the variable \<open>policy\<close> of \<open>run\<close>, built
  by \<open>build_policy\<close> from the allow-list.
\<close>

definition transform_api ::
  "runtime \<Rightarrow> ResourcePolicy option \<Rightarrow> 'a RestApiArgs_scheme \<Rightarrow> jsstring
     \<Rightarrow> 'a RestApiArgs_scheme \<times> logline list \<times> unit" where
  "transform_api rt pol args name =
     (case pol of
        Some p \<Rightarrow>
          (let serialized = JSON_stringify rt (json_of_policy p) in
           (args\<lparr>policy := Some serialized\<rparr>,
            [ConsoleLog [LStr (js ''Resource policy '' @ QUOTE # serialized @ QUOTE # js '' added to API ''
                               @ QUOTE # name @ QUOTE # js ''.'')]],
            ()))
      | None \<Rightarrow> (args, [], ()))"

text \<open>
  \<open>run\<close>: the two functions, the allow-list, the policy, the API with its transform
  and the two routes. The arguments and the name that the platform hands to the
  transform are parameters.
\<close>

record 'a deployment =
  lambdas :: "(jsstring \<times> bool \<times> jsstring) list"
  api :: "'a RestApiArgs_scheme"
  routes :: "(jsstring \<times> jsstring) list"

definition run ::
  "runtime \<Rightarrow> env \<Rightarrow> filesystem \<Rightarrow> 'a RestApiArgs_scheme \<Rightarrow> jsstring
     \<Rightarrow> logline list \<times> (exit + 'a deployment)" where
  "run rt env fs args name =
     (case allowedAccounts rt env fs of
        (out, Inl e) \<Rightarrow> (out, Inl e)
      | (out, Inr accounts) \<Rightarrow>
          (case transform_api rt (build_policy accounts) args name of
             (args', out', _) \<Rightarrow>
               (out @ out',
                Inr \<lparr>lambdas =
                       [(js ''HonoVanillaLambda'', True, js ''src/index.handler''),
                        (js ''HonoDebugLambda'', False, js ''src/debug.handler'')],
                     api = args',
                     routes =
                       [(js ''GET /'', js ''src/index.handler''),
                        (js ''GET /debug'', js ''src/debug.handler'')]\<rparr>)))"

section \<open>The diagnostic endpoint (\<open>GET /debug\<close>)\<close>

text \<open>
  What a rejected promise carries: an instance of \<open>Error\<close> with its message and its
  stack, the value \<open>undefined\<close>, or any other value.
\<close>

datatype thrown =
    ErrorInstance jsstring "jsstring option"
  | ThrownUndefined
  | ThrownValue jsval

datatype settled = Fulfilled jsval | Rejected thrown

datatype uncaught = TypeError

record request =
  headers :: "(jsstring \<times> jsstring) list"
  url :: jsstring
  method_name :: jsstring
  requestContext :: jsval

record response =
  status :: nat
  body :: jsstring

text \<open>
  \<open>c.json(object)\<close> answers with the text \<open>JSON.stringify(object)\<close> as its body, and
  with 200 unless a status is given.
\<close>

definition c_json :: "runtime \<Rightarrow> jsval \<Rightarrow> nat option \<Rightarrow> response" where
  "c_json rt obj st =
     \<lparr>status = (case st of None \<Rightarrow> 200 | Some n \<Rightarrow> n), body = JSON_stringify rt obj\<rparr>"

definition header_object :: "request \<Rightarrow> jsval" where
  "header_object req = JObj (map (\<lambda>(k, v). (k, JStr v)) (headers req))"

text \<open>
  \<open>error instanceof Error ? error.message : String(error)\<close>; \<open>None\<close> when the
  conversion throws.
\<close>

definition errorMsg :: "runtime \<Rightarrow> thrown \<Rightarrow> jsstring option" where
  "errorMsg rt error =
     (case error of
        ErrorInstance message stack \<Rightarrow> Some message
      | ThrownUndefined \<Rightarrow> Some (js ''undefined'')
      | ThrownValue v \<Rightarrow> ToString rt v)"

definition error_stack :: "thrown \<Rightarrow> logarg" where
  "error_stack error =
     (case error of
        ErrorInstance message stack \<Rightarrow> (case stack of None \<Rightarrow> LUndefined | Some s \<Rightarrow> LStr s)
      | _ \<Rightarrow> LStr [])"

text \<open>
  The part of the handler after the request has been logged, shared by the two
  variants of the file.
\<close>

definition report_identity :: "runtime \<Rightarrow> settled \<Rightarrow> logline list \<times> (uncaught + response)" where
  "report_identity rt outcome =
     (case outcome of
        Fulfilled callerIdentity \<Rightarrow>
          ([ConsoleLog [LStr (js ''Caller Identity:''), LVal callerIdentity]],
           Inr (c_json rt
                  (JObj [(js ''message'',
                          JStr (js ''Lambda executed successfully. Check CloudWatch logs for caller identity details.'')),
                         (js ''callerIdentity'', callerIdentity)])
                  None))
      | Rejected error \<Rightarrow>
          (case errorMsg rt error of
             None \<Rightarrow> ([], Inl TypeError)
           | Some msg \<Rightarrow>
               ([ConsoleError [LStr (js ''Error retrieving caller identity:''), LStr msg, error_stack error]],
                Inr (c_json rt
                       (JObj [(js ''message'', JStr (js ''Error retrieving caller identity'')),
                              (js ''error'', JStr msg)])
                       (Some 500)))))"

text \<open>The variant that logs the request context of the Lambda event.\<close>

definition debug_handler_ctx ::
  "runtime \<Rightarrow> request \<Rightarrow> settled \<Rightarrow> logline list \<times> (uncaught + response)" where
  "debug_handler_ctx rt req outcome =
     (case report_identity rt outcome of
        (out, res) \<Rightarrow>
          (ConsoleLog [LStr (js ''Received request:''),
                       LVal (JObj [(js ''headers'', header_object req),
                                   (js ''url'', JStr (url req)),
                                   (js ''method'', JStr (method_name req)),
                                   (js ''requestContext'', requestContext req)])] # out,
           res))"

text \<open>The variant that logs headers, URL and method only.\<close>

definition debug_handler ::
  "runtime \<Rightarrow> request \<Rightarrow> settled \<Rightarrow> logline list \<times> (uncaught + response)" where
  "debug_handler rt req outcome =
     (case report_identity rt outcome of
        (out, res) \<Rightarrow>
          (ConsoleLog [LStr (js ''Received request:''),
                       LVal (JObj [(js ''headers'', header_object req),
                                   (js ''url'', JStr (url req)),
                                   (js ''method'', JStr (method_name req))])] # out,
           res))"

text \<open>
  A runtime for evaluating the program on inputs without numbers.
\<close>

definition zero_runtime :: runtime where
  "zero_runtime = \<lparr>StringToNumber = (\<lambda>s. 0), NumberToString = (\<lambda>x. js ''0'')\<rparr>"

text \<open>
  A runtime that agrees with IEEE-754 on one literal: \<open>1e999\<close> is beyond the largest
  binary64 and converts to \<open>+Infinity\<close>, whose bits are \<open>0x7FF0000000000000\<close>.
\<close>

definition overflow_runtime :: runtime where
  "overflow_runtime =
     \<lparr>StringToNumber = (\<lambda>s. if s = js ''1e999'' then 0x7FF0000000000000 else 0),
      NumberToString = (\<lambda>x. js ''0'')\<rparr>"

section \<open>Values that serialization preserves\<close>

text \<open>
  The object that the parser builds from a list of members, starting from \<open>acc\<close>.
\<close>

definition put_all :: "(jsstring \<times> jsval) list \<Rightarrow> (jsstring \<times> jsval) list \<Rightarrow> (jsstring \<times> jsval) list" where
  "put_all acc kvs = foldl (\<lambda>a kv. obj_put (fst kv) (snd kv) a) acc kvs"

text \<open>
  A value is \<open>lossless\<close> when it contains no number and each of its objects lists its
  properties as the parser would build them (no key twice, array indices first).
\<close>

fun lossless :: "jsval \<Rightarrow> bool"
  and lossless_elements :: "jsval list \<Rightarrow> bool"
  and lossless_members :: "(jsstring \<times> jsval) list \<Rightarrow> bool"
where
  "lossless JNull = True"
| "lossless (JBool b) = True"
| "lossless (JNum x) = False"
| "lossless (JStr s) = True"
| "lossless (JArr xs) = lossless_elements xs"
| "lossless (JObj kvs) = (lossless_members kvs \<and> put_all [] kvs = kvs)"
| "lossless_elements [] = True"
| "lossless_elements (v # vs) = (lossless v \<and> lossless_elements vs)"
| "lossless_members [] = True"
| "lossless_members ((k, v) # kvs) = (lossless v \<and> lossless_members kvs)"

section \<open>Evaluation of the parser on concrete texts\<close>

lemmas parse_value_numeral =
  parse_value.simps(2)[where n = "pred_numeral k", folded numeral_eq_Suc] for k
lemmas parse_elements_numeral =
  parse_elements.simps(2)[where n = "pred_numeral k", folded numeral_eq_Suc] for k
lemmas parse_members_numeral =
  parse_members.simps(2)[where n = "pred_numeral k", folded numeral_eq_Suc] for k

lemmas json_eval =
  JSON_parse_def js_def skip_ws_def is_json_ws_def parse_value_numeral parse_elements_numeral
  parse_members_numeral lex_number_def lex_minus_def lex_int_def lex_frac_def lex_exp_def
  lex_sign_def is_digit_def obj_put_def is_array_index_def dec_value_def unhex4_def unhex_def
  unescape_def

section \<open>The policy\<close>

text \<open>
  C1. For every non-empty allow-list the builder returns a policy document with exactly
  one statement; the identifiers of its condition are those of the allow-list (as sets),
  its effect is \<open>Allow\<close>, its principal \<open>*\<close>, its action \<open>execute-api:Invoke\<close> and its
  resource \<open>*\<close>.
\<close>

theorem policy_shape:
  assumes "accounts \<noteq> []"
  shows "\<exists>p st. build_policy accounts = Some p \<and> Statement p = [st]
           \<and> set (aws_PrincipalOrgID (ForAnyValue_StringEquals (Condition st))) = set accounts
           \<and> Effect st = js ''Allow'' \<and> Principal st = js ''*''
           \<and> Action st = js ''execute-api:Invoke'' \<and> Resource st = js ''*''"
  using assms by (simp add: build_policy_def)

theorem policy_shape_witness:
  "[JStr (js ''o-abc'')] \<noteq> [] \<and>
   (\<exists>p st. build_policy [JStr (js ''o-abc'')] = Some p \<and> Statement p = [st]
           \<and> set (aws_PrincipalOrgID (ForAnyValue_StringEquals (Condition st)))
               = set [JStr (js ''o-abc'')]
           \<and> Effect st = js ''Allow'' \<and> Principal st = js ''*''
           \<and> Action st = js ''execute-api:Invoke'' \<and> Resource st = js ''*'')"
  using policy_shape [of "[JStr (js ''o-abc'')]"] by simp

text \<open>
  C2. For the empty allow-list the builder returns no policy, the transform leaves the
  arguments of the API as they are, and a run whose allow-list is empty deploys the API
  with the arguments it was given: no policy is attached.
\<close>

theorem empty_no_policy:
  "build_policy [] = None
   \<and> transform_api rt (build_policy []) args name = (args, [], ())
   \<and> (allowedAccounts rt env fs = (out, Inr []) \<longrightarrow>
        (\<exists>d. run rt env fs args name = (out, Inr d) \<and> api d = args))"
  by (simp add: build_policy_def transform_api_def run_def)

theorem empty_no_policy_witness:
  "build_policy [] = None
   \<and> transform_api zero_runtime (build_policy []) \<lparr>policy = None\<rparr> (js ''MyApi'')
       = (\<lparr>policy = None\<rparr>, [], ())
   \<and> allowedAccounts zero_runtime Map.empty Map.empty = ([], Inr [])
   \<and> (\<exists>d. run zero_runtime Map.empty Map.empty \<lparr>policy = None\<rparr> (js ''MyApi'') = ([], Inr d)
          \<and> api d = \<lparr>policy = None\<rparr>)"
  using empty_no_policy [where rt = zero_runtime and args = "\<lparr>policy = None\<rparr>"
      and name = "js ''MyApi''" and env = Map.empty and fs = Map.empty and out = "[]"]
  by (simp add: allowedAccounts_def truthy_def build_policy_def transform_api_def)

text \<open>
  C10. The transform changes no field of the arguments other than \<open>policy\<close> and returns
  \<open>undefined\<close>; with an empty allow-list it returns the arguments unchanged and prints
  nothing; with a non-empty one it sets \<open>policy\<close> to the serialized document.
\<close>

theorem transform_frame:
  "RestApiArgs.more (fst (transform_api rt (build_policy accounts) args name))
     = RestApiArgs.more args
   \<and> snd (snd (transform_api rt (build_policy accounts) args name)) = ()
   \<and> (accounts = [] \<longrightarrow> transform_api rt (build_policy accounts) args name = (args, [], ()))
   \<and> (accounts \<noteq> [] \<longrightarrow>
        (\<exists>p. build_policy accounts = Some p
           \<and> fst (transform_api rt (build_policy accounts) args name)
               = args\<lparr>policy := Some (JSON_stringify rt (json_of_policy p))\<rparr>))"
  by (simp add: build_policy_def transform_api_def Let_def)

theorem transform_frame_witness:
  "RestApiArgs.more (fst (transform_api zero_runtime (build_policy [JStr (js ''o-abc'')])
       \<lparr>policy = None, \<dots> = js ''description''\<rparr> (js ''MyApi''))) = js ''description''
   \<and> transform_api zero_runtime (build_policy [])
       \<lparr>policy = Some (js ''{}''), \<dots> = js ''description''\<rparr> (js ''MyApi'')
       = (\<lparr>policy = Some (js ''{}''), \<dots> = js ''description''\<rparr>, [], ())"
  using transform_frame [where rt = zero_runtime and accounts = "[JStr (js ''o-abc'')]"
      and args = "\<lparr>policy = None, \<dots> = js ''description''\<rparr>" and name = "js ''MyApi''"]
    transform_frame [where rt = zero_runtime and accounts = "[]"
      and args = "\<lparr>policy = Some (js ''{}''), \<dots> = js ''description''\<rparr>" and name = "js ''MyApi''"]
  by simp

section \<open>The allow-list\<close>

lemma env_names_differ: "js ''ALLOWED_ACCOUNTS_FILE'' \<noteq> js ''ALLOWED_ACCOUNTS''"
  by (simp add: js_def)

text \<open>
  C3. When \<open>ALLOWED_ACCOUNTS_FILE\<close> names a file that can be read and whose text is not
  JSON, or is JSON but not an array, the run logs the error and ends with
  \<open>process.exit(1)\<close>: it deploys nothing, so no policy document is produced and no
  unrestricted API either.
\<close>

theorem malformed_file_aborts:
  assumes "env (js ''ALLOWED_ACCOUNTS_FILE'') = Some path" and "path \<noteq> []"
    and "fs path = Some data"
    and "JSON_parse rt data = None \<or> (\<exists>v. JSON_parse rt data = Some v \<and> (\<forall>xs. v \<noteq> JArr xs))"
  shows "snd (allowedAccounts rt env fs) = Inl (ProcessExit 1)
       \<and> snd (run rt env fs args name) = Inl (ProcessExit 1)
       \<and> fst (run rt env fs args name) =
           [ConsoleError [LStr (js ''Error reading ALLOWED_ACCOUNTS_FILE:''),
              LExn (if JSON_parse rt data = None then SyntaxError
                    else Error (js ''The ALLOWED_ACCOUNTS_FILE must contain a JSON array of account IDs.''))]]"
  using assms
  by (auto simp: allowedAccounts_def truthy_def try_read_def run_def split: jsval.splits)

theorem malformed_file_aborts_witness:
  "JSON_parse zero_runtime (js ''{\"o-abc\": true}'') = Some (JObj [(js ''o-abc'', JBool True)])
   \<and> run zero_runtime [js ''ALLOWED_ACCOUNTS_FILE'' \<mapsto> js ''accounts.json'']
        [js ''accounts.json'' \<mapsto> js ''{\"o-abc\": true}''] \<lparr>policy = None\<rparr> (js ''MyApi'')
      = ([ConsoleError [LStr (js ''Error reading ALLOWED_ACCOUNTS_FILE:''),
            LExn (Error (js ''The ALLOWED_ACCOUNTS_FILE must contain a JSON array of account IDs.''))]],
         Inl (ProcessExit 1))"
proof -
  let ?env = "[js ''ALLOWED_ACCOUNTS_FILE'' \<mapsto> js ''accounts.json'']"
  let ?fs = "[js ''accounts.json'' \<mapsto> js ''{\"o-abc\": true}'']"
  have p: "JSON_parse zero_runtime (js ''{\"o-abc\": true}'') = Some (JObj [(js ''o-abc'', JBool True)])"
    by (simp add: json_eval)
  have h1: "?env (js ''ALLOWED_ACCOUNTS_FILE'') = Some (js ''accounts.json'')" by simp
  have h2: "js ''accounts.json'' \<noteq> []" by (simp add: js_def)
  have h3: "?fs (js ''accounts.json'') = Some (js ''{\"o-abc\": true}'')" by simp
  have h4: "JSON_parse zero_runtime (js ''{\"o-abc\": true}'') = None
     \<or> (\<exists>v. JSON_parse zero_runtime (js ''{\"o-abc\": true}'') = Some v \<and> (\<forall>xs. v \<noteq> JArr xs))"
    using p by simp
  from malformed_file_aborts [where env = ?env and fs = ?fs and rt = zero_runtime
      and args = "\<lparr>policy = None\<rparr>" and name = "js ''MyApi''", OF h1 h2 h3 h4] p
  show ?thesis
    by (simp add: prod_eq_iff)
qed

text \<open>
  C4. When \<open>ALLOWED_ACCOUNTS_FILE\<close> is set, the allow-list is what the file gives,
  whatever \<open>ALLOWED_ACCOUNTS\<close> holds; \<open>ALLOWED_ACCOUNTS\<close> is read only when the file
  variable is not set, and then it alone gives the allow-list.
\<close>

theorem file_takes_precedence:
  "(truthy (env (js ''ALLOWED_ACCOUNTS_FILE'')) \<longrightarrow>
      allowedAccounts rt (env(js ''ALLOWED_ACCOUNTS'' := inline)) fs = allowedAccounts rt env fs
      \<and> allowedAccounts rt env fs =
          (case try_read rt fs (the (env (js ''ALLOWED_ACCOUNTS_FILE''))) of
             Inl e \<Rightarrow> ([ConsoleError [LStr (js ''Error reading ALLOWED_ACCOUNTS_FILE:''), LExn e]],
                       Inl (ProcessExit 1))
           | Inr xs \<Rightarrow> ([], Inr xs)))
   \<and> (\<not> truthy (env (js ''ALLOWED_ACCOUNTS_FILE'')) \<longrightarrow>
      allowedAccounts rt env fs =
        ([], Inr (if truthy (env (js ''ALLOWED_ACCOUNTS''))
                  then inline_accounts (the (env (js ''ALLOWED_ACCOUNTS''))) else [])))"
  using env_names_differ by (simp add: allowedAccounts_def)

theorem file_takes_precedence_witness:
  "allowedAccounts zero_runtime
      [js ''ALLOWED_ACCOUNTS_FILE'' \<mapsto> js ''accounts.json'', js ''ALLOWED_ACCOUNTS'' \<mapsto> js ''o-inline'']
      [js ''accounts.json'' \<mapsto> js ''[\"o-file\"]'']
    = ([], Inr [JStr (js ''o-file'')])
   \<and> allowedAccounts zero_runtime [js ''ALLOWED_ACCOUNTS'' \<mapsto> js ''o-inline'']
      [js ''accounts.json'' \<mapsto> js ''[\"o-file\"]'']
    = ([], Inr [JStr (js ''o-inline'')])"
  using file_takes_precedence [where env = "[js ''ALLOWED_ACCOUNTS_FILE'' \<mapsto> js ''accounts.json'']"
      and inline = "Some (js ''o-inline'')"
      and fs = "[js ''accounts.json'' \<mapsto> js ''[\"o-file\"]'']" and rt = zero_runtime]
    file_takes_precedence [where env = "[js ''ALLOWED_ACCOUNTS'' \<mapsto> js ''o-inline'']"
      and fs = "[js ''accounts.json'' \<mapsto> js ''[\"o-file\"]'']" and rt = zero_runtime]
  by (simp add: truthy_def try_read_def json_eval inline_accounts_def trim_def is_js_space_def)

text \<open>
  C9. The run exits if and only if \<open>ALLOWED_ACCOUNTS_FILE\<close> is set and reading the file
  fails, or its text is not JSON, or the JSON is not an array. An array is taken as it
  is, whatever its elements, and goes into the policy unchanged. Without the file
  variable the run never exits, whatever \<open>ALLOWED_ACCOUNTS\<close> holds.
\<close>

theorem abort_iff_file_fails:
  "((\<exists>e. snd (run rt env fs args name) = Inl e) \<longleftrightarrow>
      (truthy (env (js ''ALLOWED_ACCOUNTS_FILE''))
       \<and> (fs (the (env (js ''ALLOWED_ACCOUNTS_FILE''))) = None
          \<or> (\<exists>data. fs (the (env (js ''ALLOWED_ACCOUNTS_FILE''))) = Some data
                \<and> (JSON_parse rt data = None
                   \<or> (\<exists>v. JSON_parse rt data = Some v \<and> (\<forall>xs. v \<noteq> JArr xs)))))))
   \<and> (truthy (env (js ''ALLOWED_ACCOUNTS_FILE''))
        \<and> fs (the (env (js ''ALLOWED_ACCOUNTS_FILE''))) = Some data
        \<and> JSON_parse rt data = Some (JArr xs) \<longrightarrow>
       allowedAccounts rt env fs = ([], Inr xs)
       \<and> (xs \<noteq> [] \<longrightarrow>
            (\<exists>p st. build_policy xs = Some p \<and> Statement p = [st]
               \<and> aws_PrincipalOrgID (ForAnyValue_StringEquals (Condition st)) = xs)))
   \<and> (\<not> truthy (env (js ''ALLOWED_ACCOUNTS_FILE'')) \<longrightarrow>
        (\<exists>d. snd (run rt env fs args name) = Inr d))"
proof (intro conjI)
  show "(\<exists>e. snd (run rt env fs args name) = Inl e) \<longleftrightarrow>
      (truthy (env (js ''ALLOWED_ACCOUNTS_FILE''))
       \<and> (fs (the (env (js ''ALLOWED_ACCOUNTS_FILE''))) = None
          \<or> (\<exists>data. fs (the (env (js ''ALLOWED_ACCOUNTS_FILE''))) = Some data
                \<and> (JSON_parse rt data = None
                   \<or> (\<exists>v. JSON_parse rt data = Some v \<and> (\<forall>xs. v \<noteq> JArr xs))))))"
    by (auto simp: run_def allowedAccounts_def try_read_def
        split: option.splits jsval.splits prod.splits sum.splits)
next
  show "truthy (env (js ''ALLOWED_ACCOUNTS_FILE''))
        \<and> fs (the (env (js ''ALLOWED_ACCOUNTS_FILE''))) = Some data
        \<and> JSON_parse rt data = Some (JArr xs) \<longrightarrow>
       allowedAccounts rt env fs = ([], Inr xs)
       \<and> (xs \<noteq> [] \<longrightarrow>
            (\<exists>p st. build_policy xs = Some p \<and> Statement p = [st]
               \<and> aws_PrincipalOrgID (ForAnyValue_StringEquals (Condition st)) = xs))"
    by (simp add: allowedAccounts_def try_read_def build_policy_def)
next
  show "\<not> truthy (env (js ''ALLOWED_ACCOUNTS_FILE'')) \<longrightarrow>
        (\<exists>d. snd (run rt env fs args name) = Inr d)"
    by (simp add: run_def allowedAccounts_def split: prod.splits)
qed

theorem abort_iff_file_fails_witness:
  "(\<exists>e. snd (run zero_runtime [js ''ALLOWED_ACCOUNTS_FILE'' \<mapsto> js ''accounts.json'']
          [js ''accounts.json'' \<mapsto> js ''{}''] \<lparr>policy = None\<rparr> (js ''MyApi'')) = Inl e)
   \<and> allowedAccounts zero_runtime [js ''ALLOWED_ACCOUNTS_FILE'' \<mapsto> js ''accounts.json'']
          [js ''accounts.json'' \<mapsto> js ''[null, true]'']
     = ([], Inr [JNull, JBool True])
   \<and> (\<exists>p st. build_policy [JNull, JBool True] = Some p \<and> Statement p = [st]
               \<and> aws_PrincipalOrgID (ForAnyValue_StringEquals (Condition st)) = [JNull, JBool True])
   \<and> (\<exists>d. snd (run zero_runtime [js ''ALLOWED_ACCOUNTS'' \<mapsto> js '',''] Map.empty
          \<lparr>policy = None\<rparr> (js ''MyApi'')) = Inr d)"
proof -
  let ?file = "[js ''ALLOWED_ACCOUNTS_FILE'' \<mapsto> js ''accounts.json'']"
  have a: "JSON_parse zero_runtime (js ''{}'') = Some (JObj [])"
    by (simp add: json_eval)
  have b: "JSON_parse zero_runtime (js ''[null, true]'') = Some (JArr [JNull, JBool True])"
    by (simp add: json_eval)
  have t: "truthy (?file (js ''ALLOWED_ACCOUNTS_FILE''))"
    by (simp add: truthy_def js_def)
  have f: "\<not> truthy ([js ''ALLOWED_ACCOUNTS'' \<mapsto> js '',''] (js ''ALLOWED_ACCOUNTS_FILE''))"
    by (simp add: truthy_def js_def)
  have c1: "\<exists>e. snd (run zero_runtime ?file [js ''accounts.json'' \<mapsto> js ''{}'']
          \<lparr>policy = None\<rparr> (js ''MyApi'')) = Inl e"
    using a t abort_iff_file_fails [where env = ?file
        and fs = "[js ''accounts.json'' \<mapsto> js ''{}'']" and rt = zero_runtime
        and args = "\<lparr>policy = None\<rparr>" and name = "js ''MyApi''", THEN conjunct1]
    by simp
  have c2: "allowedAccounts zero_runtime ?file [js ''accounts.json'' \<mapsto> js ''[null, true]'']
       = ([], Inr [JNull, JBool True])
     \<and> ([JNull, JBool True] \<noteq> [] \<longrightarrow>
         (\<exists>p st. build_policy [JNull, JBool True] = Some p \<and> Statement p = [st]
               \<and> aws_PrincipalOrgID (ForAnyValue_StringEquals (Condition st)) = [JNull, JBool True]))"
    using b t abort_iff_file_fails [where env = ?file
        and fs = "[js ''accounts.json'' \<mapsto> js ''[null, true]'']" and rt = zero_runtime
        and data = "js ''[null, true]''" and xs = "[JNull, JBool True]",
        THEN conjunct2, THEN conjunct1]
    by simp
  have c3: "\<exists>d. snd (run zero_runtime [js ''ALLOWED_ACCOUNTS'' \<mapsto> js '',''] Map.empty
          \<lparr>policy = None\<rparr> (js ''MyApi'')) = Inr d"
    using f abort_iff_file_fails [where env = "[js ''ALLOWED_ACCOUNTS'' \<mapsto> js '','']"
        and fs = Map.empty and rt = zero_runtime
        and args = "\<lparr>policy = None\<rparr>" and name = "js ''MyApi''",
        THEN conjunct2, THEN conjunct2]
    by simp
  from c1 c2 c3 show ?thesis by simp
qed

subsection \<open>Splitting and trimming\<close>

lemma split_on_nonempty: "split_on sep s \<noteq> []"
  by (induction s) (auto split: list.splits)

lemma split_on_no_sep: "x \<in> set (split_on sep s) \<Longrightarrow> sep \<notin> set x"
proof (induction s arbitrary: x)
  case Nil
  then show ?case by simp
next
  case (Cons c cs)
  then show ?case
    by (cases "split_on sep cs") (auto split: if_splits)
qed

lemma set_trim: "set (trim s) \<subseteq> set s"
proof
  fix c
  assume "c \<in> set (trim s)"
  then have "c \<in> set (dropWhile is_js_space (rev (dropWhile is_js_space s)))"
    by (simp add: trim_def)
  then have "c \<in> set (rev (dropWhile is_js_space s))"
    by (rule set_dropWhileD)
  then have "c \<in> set (dropWhile is_js_space s)"
    by simp
  then show "c \<in> set s"
    by (rule set_dropWhileD)
qed

lemma last_dropWhile: "dropWhile P xs \<noteq> [] \<Longrightarrow> last (dropWhile P xs) = last xs"
  by (induction xs) (auto split: if_splits)

lemma trim_ends:
  assumes "trim s \<noteq> []"
  shows "\<not> is_js_space (hd (trim s)) \<and> \<not> is_js_space (last (trim s))"
proof -
  let ?t = "dropWhile is_js_space s"
  let ?u = "dropWhile is_js_space (rev ?t)"
  from assms have u: "?u \<noteq> []" by (simp add: trim_def)
  have t: "?t \<noteq> []"
  proof
    assume "?t = []"
    then have "?u = []" by (simp only: rev.simps dropWhile.simps)
    with u show False by simp
  qed
  have "last (trim s) = hd ?u"
    using u by (simp add: trim_def last_rev)
  moreover have "\<not> is_js_space (hd ?u)"
    using u by (rule hd_dropWhile)
  moreover have "hd (trim s) = last ?u"
    using u by (simp add: trim_def hd_rev)
  moreover have "last ?u = last (rev ?t)"
    using u by (rule last_dropWhile)
  moreover have "last (rev ?t) = hd ?t"
    using t by (simp add: last_rev)
  moreover have "\<not> is_js_space (hd ?t)"
    using t by (rule hd_dropWhile)
  ultimately show ?thesis by simp
qed

text \<open>
  C7 (as the program has it). An allow-list read from \<open>ALLOWED_ACCOUNTS\<close> holds only
  strings, each free of commas and of white space at either end; an entry may be the
  empty string. An allow-list read from the file is the parsed array, element for
  element. The identifiers of a policy document are the allow-list it was built from.
\<close>

theorem allow_list_entries:
  "(\<not> truthy (env (js ''ALLOWED_ACCOUNTS_FILE''))
      \<and> allowedAccounts rt env fs = (out, Inr accounts) \<and> x \<in> set accounts \<longrightarrow>
      (\<exists>s. x = JStr s \<and> COMMA \<notin> set s
         \<and> (s \<noteq> [] \<longrightarrow> \<not> is_js_space (hd s) \<and> \<not> is_js_space (last s))))
   \<and> (truthy (env (js ''ALLOWED_ACCOUNTS_FILE''))
      \<and> allowedAccounts rt env fs = (out, Inr accounts) \<longrightarrow>
      (\<exists>data. fs (the (env (js ''ALLOWED_ACCOUNTS_FILE''))) = Some data
         \<and> JSON_parse rt data = Some (JArr accounts)))
   \<and> (build_policy accounts = Some p \<longrightarrow>
      (\<exists>st. Statement p = [st]
         \<and> aws_PrincipalOrgID (ForAnyValue_StringEquals (Condition st)) = accounts))"
proof (intro conjI impI)
  assume a: "\<not> truthy (env (js ''ALLOWED_ACCOUNTS_FILE''))
      \<and> allowedAccounts rt env fs = (out, Inr accounts) \<and> x \<in> set accounts"
  then obtain v where acc: "accounts = inline_accounts v"
    by (auto simp: allowedAccounts_def split: if_splits)
  with a obtain y where y: "y \<in> set (split_on COMMA v)" and x: "x = JStr (trim y)"
    by (auto simp: inline_accounts_def)
  from y have "COMMA \<notin> set y" by (rule split_on_no_sep)
  with set_trim [of y] have "COMMA \<notin> set (trim y)" by auto
  then show "\<exists>s. x = JStr s \<and> COMMA \<notin> set s
         \<and> (s \<noteq> [] \<longrightarrow> \<not> is_js_space (hd s) \<and> \<not> is_js_space (last s))"
    using x trim_ends [of y] by simp
next
  assume "truthy (env (js ''ALLOWED_ACCOUNTS_FILE''))
      \<and> allowedAccounts rt env fs = (out, Inr accounts)"
  then show "\<exists>data. fs (the (env (js ''ALLOWED_ACCOUNTS_FILE''))) = Some data
         \<and> JSON_parse rt data = Some (JArr accounts)"
    by (auto simp: allowedAccounts_def try_read_def
        split: option.splits jsval.splits sum.splits)
next
  assume "build_policy accounts = Some p"
  then show "\<exists>st. Statement p = [st]
         \<and> aws_PrincipalOrgID (ForAnyValue_StringEquals (Condition st)) = accounts"
    by (auto simp: build_policy_def split: if_splits)
qed

theorem allow_list_entries_witness:
  "allowedAccounts zero_runtime [js ''ALLOWED_ACCOUNTS'' \<mapsto> js '' o-a , o-b''] Map.empty
     = ([], Inr [JStr (js ''o-a''), JStr (js ''o-b'')])
   \<and> (\<exists>s. JStr (js ''o-b'') = JStr s \<and> COMMA \<notin> set s
         \<and> \<not> is_js_space (hd s) \<and> \<not> is_js_space (last s))
   \<and> (\<exists>p st. build_policy [JStr (js ''o-a''), JStr (js ''o-b'')] = Some p \<and> Statement p = [st]
         \<and> aws_PrincipalOrgID (ForAnyValue_StringEquals (Condition st))
             = [JStr (js ''o-a''), JStr (js ''o-b'')])"
proof -
  let ?env = "[js ''ALLOWED_ACCOUNTS'' \<mapsto> js '' o-a , o-b'']"
  let ?acc = "[JStr (js ''o-a''), JStr (js ''o-b'')]"
  have h1: "\<not> truthy (?env (js ''ALLOWED_ACCOUNTS_FILE''))"
    by (simp add: truthy_def js_def)
  have h2: "allowedAccounts zero_runtime ?env Map.empty = ([], Inr ?acc)"
    by (simp add: allowedAccounts_def truthy_def inline_accounts_def trim_def is_js_space_def js_def)
  have h3: "JStr (js ''o-b'') \<in> set ?acc"
    by simp
  have h4: "js ''o-b'' \<noteq> []"
    by (simp add: js_def)
  obtain p where p: "build_policy ?acc = Some p"
    by (simp add: build_policy_def)
  note T = allow_list_entries [where env = ?env and fs = Map.empty and rt = zero_runtime
      and out = "[]" and accounts = ?acc and x = "JStr (js ''o-b'')" and p = p]
  from T h1 h2 h3 h4 p show ?thesis
    by auto
qed

text \<open>
  C7 as stated fails: two commas in a row leave an empty entry, which reaches the
  condition of the policy.
\<close>

theorem allow_list_entries_counterexample:
  "allowedAccounts zero_runtime [js ''ALLOWED_ACCOUNTS'' \<mapsto> js ''o-a,,o-b''] Map.empty
     = ([], Inr [JStr (js ''o-a''), JStr [], JStr (js ''o-b'')])
   \<and> map (\<lambda>st. aws_PrincipalOrgID (ForAnyValue_StringEquals (Condition st)))
        (Statement (the (build_policy [JStr (js ''o-a''), JStr [], JStr (js ''o-b'')])))
     = [[JStr (js ''o-a''), JStr [], JStr (js ''o-b'')]]"
  by (simp add: allowedAccounts_def truthy_def inline_accounts_def trim_def is_js_space_def js_def
      build_policy_def)

section \<open>The parser has enough fuel\<close>

text \<open>
  A parser consumes input whenever it succeeds, so the fuel that \<open>JSON_parse\<close> supplies
  is never used up: \<open>None\<close> always stands for a syntax error.
\<close>

lemma skip_ws_Cons_length: "skip_ws s = d # ds \<Longrightarrow> length ds < length s"
  using length_dropWhile_le [of is_json_ws s] by (simp add: skip_ws_def)

lemma skip_ws_length: "length (skip_ws s) \<le> length s"
  by (simp add: skip_ws_def length_dropWhile_le)

lemma parse_chars_length: "parse_chars s = Some (x, r) \<Longrightarrow> length r < length s"
proof (induction s arbitrary: x r rule: parse_chars.induct)
  case 1
  then show ?case by simp
next
  case (2 c cs)
  then show ?case
    by (fastforce split: if_splits list.splits option.splits)
qed

lemma lex_number_length: "lex_number s = Some (x, r) \<Longrightarrow> length r < length s"
proof -
  have d: "length (dropWhile is_digit t) \<le> length t" for t
    by (rule length_dropWhile_le)
  have m: "lex_minus s = (a, t) \<Longrightarrow> length t \<le> length s" for a t
    by (auto simp: lex_minus_def split: list.splits if_splits)
  have i: "lex_int t = Some (a, u) \<Longrightarrow> length u < length t" for t a u
    using d by (auto simp: lex_int_def le_imp_less_Suc split: list.splits if_splits)
  have f: "lex_frac t = Some (a, u) \<Longrightarrow> length u \<le> length t" for t a u
    using d by (auto simp: lex_frac_def le_SucI split: list.splits if_splits)
  have g: "lex_sign t = (a, u) \<Longrightarrow> length u \<le> length t" for t a u
    by (auto simp: lex_sign_def split: list.splits if_splits)
  have e: "lex_exp t = Some (a, u) \<Longrightarrow> length u \<le> length t" for t a u
  proof (cases t)
    case Nil
    assume "lex_exp t = Some (a, u)"
    with Nil show ?thesis by (simp add: lex_exp_def)
  next
    case (Cons c t')
    assume ex: "lex_exp t = Some (a, u)"
    obtain sg t'' where sg: "lex_sign t' = (sg, t'')" by (cases "lex_sign t'")
    from g [OF sg] have "length t'' \<le> length t'" .
    moreover have "length (dropWhile is_digit t'') \<le> length t''" by (rule d)
    ultimately show ?thesis
      using ex Cons sg by (auto simp: lex_exp_def split: if_splits)
  qed
  assume "lex_number s = Some (x, r)"
  then obtain a s0 b s1 c s2 e' where l: "lex_minus s = (a, s0)" "lex_int s0 = Some (b, s1)"
    "lex_frac s1 = Some (c, s2)" "lex_exp s2 = Some (e', r)"
    by (auto simp: lex_number_def split: prod.splits option.splits)
  from m [OF l(1)] i [OF l(2)] f [OF l(3)] e [OF l(4)] show ?thesis
    by linarith
qed



lemma parsed_shorter:
  "parse_value rt n s = Parsed v r \<Longrightarrow> length r < length s"
  "parse_elements rt n acc s = Parsed xs r' \<Longrightarrow> length r' < length s"
  "parse_members rt n mem s = Parsed kvs r'' \<Longrightarrow> length r'' < length s"
proof (induction rt n s and rt n acc s and rt n mem s arbitrary: v r and xs r' and kvs r''
    rule: parse_value_parse_elements_parse_members.induct)
  case (1 rt s)
  then show ?case by simp
next
  case (2 rt n s)
  show ?case
  proof (cases s)
    case Nil
    with 2(3) show ?thesis by simp
  next
    case (Cons c cs)
    consider (arr) "c = LBRACK" | (obj) "c \<noteq> LBRACK" "c = LBRACE"
      | (str) "c \<noteq> LBRACK" "c \<noteq> LBRACE" "c = QUOTE"
      | (other) "c \<noteq> LBRACK" "c \<noteq> LBRACE" "c \<noteq> QUOTE"
      by blast
    then show ?thesis
    proof cases
      case arr
      show ?thesis
      proof (cases "skip_ws cs")
        case Nil
        with 2(3) Cons arr show ?thesis by simp
      next
        case sk: (Cons d ds)
        from skip_ws_Cons_length [OF sk] have dl: "length ds < length cs" .
        show ?thesis
        proof (cases "d = RBRACK")
          case True
          with 2(3) Cons arr sk dl show ?thesis by auto
        next
          case False
          with 2(3) Cons arr sk obtain ys where "parse_elements rt n [] (d # ds) = Parsed ys r"
            by (auto split: parse.splits)
          from 2(1) [OF Cons arr sk False this] dl Cons show ?thesis by simp
        qed
      qed
    next
      case obj
      show ?thesis
      proof (cases "skip_ws cs")
        case Nil
        with 2(3) Cons obj show ?thesis by simp
      next
        case sk: (Cons d ds)
        from skip_ws_Cons_length [OF sk] have dl: "length ds < length cs" .
        show ?thesis
        proof (cases "d = RBRACE")
          case True
          with 2(3) Cons obj sk dl show ?thesis by auto
        next
          case False
          with 2(3) Cons obj sk obtain ys where "parse_members rt n [] (d # ds) = Parsed ys r"
            by (auto split: parse.splits)
          from 2(2) [OF Cons obj(1) obj(2) sk False this] dl Cons show ?thesis by simp
        qed
      qed
    next
      case str
      with 2(3) Cons obtain x where "parse_chars cs = Some (x, r)"
        by (auto split: option.splits)
      from parse_chars_length [OF this] Cons show ?thesis by simp
    next
      case other
      with 2(3) Cons show ?thesis
        by (auto simp: js_def split: if_splits option.splits dest: lex_number_length)
    qed
  qed
next
  case (3 rt acc s)
  then show ?case by simp
next
  case (4 rt n acc s)
  from 4(3) obtain v r0 where pv: "parse_value rt n (skip_ws s) = Parsed v r0"
    by (auto split: parse.splits)
  from 4(1) [OF pv] skip_ws_length [of s] have r0: "length r0 < length s" by simp
  show ?case
  proof (cases "skip_ws r0")
    case Nil
    with 4(3) pv show ?thesis by simp
  next
    case (Cons d ds)
    from skip_ws_Cons_length [OF Cons] r0 have dl: "length ds < length s" by simp
    show ?thesis
    proof (cases "d = COMMA")
      case True
      with 4(3) pv Cons have "parse_elements rt n (acc @ [v]) ds = Parsed xs r'" by simp
      from 4(2) [OF pv Cons True this] dl show ?thesis by simp
    next
      case False
      with 4(3) pv Cons dl show ?thesis by (auto split: if_splits)
    qed
  qed
next
  case (5 rt mem s)
  then show ?case by simp
next
  case (6 rt n mem s)
  show ?case
  proof (cases "skip_ws s")
    case Nil
    with 6(3) show ?thesis by simp
  next
    case sk: (Cons q cs)
    from skip_ws_Cons_length [OF sk] have cl: "length cs < length s" .
    from 6(3) sk have q: "\<not> q \<noteq> QUOTE" by (auto split: if_splits)
    with 6(3) sk obtain k r0 where pc: "parse_chars cs = Some (k, r0)"
      by (auto split: option.splits)
    from parse_chars_length [OF pc] cl have r0: "length r0 < length s" by simp
    from 6(3) sk q pc obtain c r1 where sk1: "skip_ws r0 = c # r1"
      by (cases "skip_ws r0") auto
    from skip_ws_Cons_length [OF sk1] r0 have r1: "length r1 < length s" by simp
    from 6(3) sk q pc sk1 have c: "\<not> c \<noteq> COLON" by (auto split: if_splits)
    with 6(3) sk q pc sk1 obtain v r2 where pv: "parse_value rt n (skip_ws r1) = Parsed v r2"
      by (auto split: parse.splits)
    from 6(1) [OF sk q pc refl sk1 c pv] skip_ws_length [of r1] r1
    have r2: "length r2 < length s" by simp
    show ?thesis
    proof (cases "skip_ws r2")
      case Nil
      with 6(3) sk q pc sk1 c pv show ?thesis by simp
    next
      case (Cons d ds)
      from skip_ws_Cons_length [OF Cons] r2 have dl: "length ds < length s" by simp
      show ?thesis
      proof (cases "d = COMMA")
        case True
        with 6(3) sk q pc sk1 c pv Cons
        have "parse_members rt n (obj_put k v mem) ds = Parsed kvs r''" by simp
        from 6(2) [OF sk q pc refl sk1 c pv Cons True this] dl show ?thesis by simp
      next
        case False
        with 6(3) sk q pc sk1 c pv Cons dl show ?thesis by (auto split: if_splits)
      qed
    qed
  qed
qed


lemma enough_fuel:
  "2 * length s < n \<Longrightarrow> parse_value rt n s \<noteq> OutOfFuel"
  "2 * length s + 1 < n \<Longrightarrow> parse_elements rt n acc s \<noteq> OutOfFuel"
  "2 * length s + 1 < n \<Longrightarrow> parse_members rt n mem s \<noteq> OutOfFuel"
proof (induction rt n s and rt n acc s and rt n mem s
    rule: parse_value_parse_elements_parse_members.induct)
  case (1 rt s)
  then show ?case by simp
next
  case (2 rt n s)
  show ?case
  proof (cases s)
    case Nil
    then show ?thesis by simp
  next
    case (Cons c cs)
    consider (arr) "c = LBRACK" | (obj) "c \<noteq> LBRACK" "c = LBRACE"
      | (other) "c \<noteq> LBRACK" "c \<noteq> LBRACE"
      by blast
    then show ?thesis
    proof cases
      case arr
      show ?thesis
      proof (cases "skip_ws cs")
        case Nil
        with Cons arr show ?thesis by simp
      next
        case sk: (Cons d ds)
        from skip_ws_Cons_length [OF sk] 2(3) Cons have "2 * length (d # ds) + 1 < n" by simp
        with 2(1) [OF Cons arr sk] Cons arr sk show ?thesis
          by (auto split: parse.splits)
      qed
    next
      case obj
      show ?thesis
      proof (cases "skip_ws cs")
        case Nil
        with Cons obj show ?thesis by simp
      next
        case sk: (Cons d ds)
        from skip_ws_Cons_length [OF sk] 2(3) Cons have "2 * length (d # ds) + 1 < n" by simp
        with 2(2) [OF Cons obj(1) obj(2) sk] Cons obj sk show ?thesis
          by (auto split: parse.splits)
      qed
    next
      case other
      with Cons show ?thesis
        by (auto split: option.splits)
    qed
  qed
next
  case (3 rt acc s)
  then show ?case by simp
next
  case (4 rt n acc s)
  from 4(3) skip_ws_length [of s] have "2 * length (skip_ws s) < n" by simp
  from 4(1) [OF this] have nf: "parse_value rt n (skip_ws s) \<noteq> OutOfFuel" .
  show ?case
  proof (cases "parse_value rt n (skip_ws s)")
    case OutOfFuel
    with nf show ?thesis by simp
  next
    case Malformed
    then show ?thesis by simp
  next
    case (Parsed v r0)
    from parsed_shorter(1) [OF Parsed] skip_ws_length [of s] have r0: "length r0 < length s" by simp
    show ?thesis
    proof (cases "skip_ws r0")
      case Nil
      with Parsed show ?thesis by simp
    next
      case (Cons d ds)
      from skip_ws_Cons_length [OF Cons] r0 4(3) have "2 * length ds + 1 < n" by simp
      with 4(2) [OF Parsed Cons] Parsed Cons show ?thesis by auto
    qed
  qed
next
  case (5 rt mem s)
  then show ?case by simp
next
  case (6 rt n mem s)
  show ?case
  proof (cases "skip_ws s")
    case Nil
    then show ?thesis by simp
  next
    case sk: (Cons q cs)
    from skip_ws_Cons_length [OF sk] have cl: "length cs < length s" .
    show ?thesis
    proof (cases "q \<noteq> QUOTE")
      case True
      with sk show ?thesis by simp
    next
      case q: False
      show ?thesis
      proof (cases "parse_chars cs")
        case None
        with sk q show ?thesis by simp
      next
        case (Some kr)
        then obtain k r0 where pc: "parse_chars cs = Some (k, r0)" by (cases kr) simp
        from parse_chars_length [OF pc] cl have r0: "length r0 < length s" by simp
        show ?thesis
        proof (cases "skip_ws r0")
          case Nil
          with sk q pc show ?thesis by simp
        next
          case sk1: (Cons c r1)
          from skip_ws_Cons_length [OF sk1] r0 have r1: "length r1 < length s" by simp
          show ?thesis
          proof (cases "c \<noteq> COLON")
            case True
            with sk q pc sk1 show ?thesis by simp
          next
            case c: False
            from r1 skip_ws_length [of r1] 6(3) have "2 * length (skip_ws r1) < n" by simp
            from 6(1) [OF sk q pc refl sk1 c this]
            have nf: "parse_value rt n (skip_ws r1) \<noteq> OutOfFuel" .
            show ?thesis
            proof (cases "parse_value rt n (skip_ws r1)")
              case OutOfFuel
              with nf show ?thesis by simp
            next
              case Malformed
              with sk q pc sk1 c show ?thesis by simp
            next
              case (Parsed v r2)
              from parsed_shorter(1) [OF Parsed] skip_ws_length [of r1] r1
              have r2: "length r2 < length s" by simp
              show ?thesis
              proof (cases "skip_ws r2")
                case Nil
                with sk q pc sk1 c Parsed show ?thesis by simp
              next
                case (Cons d ds)
                from skip_ws_Cons_length [OF Cons] r2 6(3) have "2 * length ds + 1 < n" by simp
                with 6(2) [OF sk q pc refl sk1 c Parsed Cons] sk q pc sk1 c Parsed Cons
                show ?thesis by auto
              qed
            qed
          qed
        qed
      qed
    qed
  qed
qed

lemma JSON_parse_fuel: "parse_value rt (Suc (2 * length s)) (skip_ws s) \<noteq> OutOfFuel"
  using skip_ws_length [of s] by (intro enough_fuel(1)) simp

text \<open>
  More fuel than enough changes nothing, and \<open>JSON_parse\<close> rejects a text only for its
  syntax or for what follows the value.
\<close>

lemma more_fuel:
  "parse_value rt n s \<noteq> OutOfFuel \<Longrightarrow> parse_value rt (Suc n) s = parse_value rt n s"
  "parse_elements rt n acc s \<noteq> OutOfFuel \<Longrightarrow>
     parse_elements rt (Suc n) acc s = parse_elements rt n acc s"
  "parse_members rt n mem s \<noteq> OutOfFuel \<Longrightarrow>
     parse_members rt (Suc n) mem s = parse_members rt n mem s"
proof (induction rt n s and rt n acc s and rt n mem s
    rule: parse_value_parse_elements_parse_members.induct)
  case (1 rt s)
  then show ?case by simp
next
  case (2 rt n s)
  show ?case
  proof (cases s)
    case Nil
    then show ?thesis by simp
  next
    case (Cons c cs)
    consider (arr) "c = LBRACK" | (obj) "c \<noteq> LBRACK" "c = LBRACE"
      | (other) "c \<noteq> LBRACK" "c \<noteq> LBRACE"
      by blast
    then show ?thesis
    proof cases
      case arr
      show ?thesis
      proof (cases "skip_ws cs")
        case Nil
        with Cons arr show ?thesis by simp
      next
        case sk: (Cons d ds)
        show ?thesis
        proof (cases "d = RBRACK")
          case True
          with Cons arr sk show ?thesis by simp
        next
          case False
          from 2(3) Cons arr sk False have "parse_elements rt n [] (d # ds) \<noteq> OutOfFuel"
            by (auto split: parse.splits)
          from 2(1) [OF Cons arr sk False this] Cons arr sk False show ?thesis
            by simp
        qed
      qed
    next
      case obj
      show ?thesis
      proof (cases "skip_ws cs")
        case Nil
        with Cons obj show ?thesis by simp
      next
        case sk: (Cons d ds)
        show ?thesis
        proof (cases "d = RBRACE")
          case True
          with Cons obj sk show ?thesis by simp
        next
          case False
          from 2(3) Cons obj sk False have "parse_members rt n [] (d # ds) \<noteq> OutOfFuel"
            by (auto split: parse.splits)
          from 2(2) [OF Cons obj(1) obj(2) sk False this] Cons obj sk False show ?thesis
            by simp
        qed
      qed
    next
      case other
      with Cons show ?thesis by simp
    qed
  qed
next
  case (3 rt acc s)
  then show ?case by simp
next
  case (4 rt n acc s)
  from 4(3) have nf: "parse_value rt n (skip_ws s) \<noteq> OutOfFuel"
    by (auto split: parse.splits)
  from 4(1) [OF nf] have pv: "parse_value rt (Suc n) (skip_ws s) = parse_value rt n (skip_ws s)" .
  show ?case
  proof (cases "parse_value rt n (skip_ws s)")
    case OutOfFuel
    with nf show ?thesis by simp
  next
    case Malformed
    with pv show ?thesis
      by (simp only: parse_elements.simps parse.case)
  next
    case (Parsed v r0)
    show ?thesis
    proof (cases "skip_ws r0")
      case Nil
      with Parsed pv show ?thesis
        by (simp only: parse_elements.simps parse.case list.case)
    next
      case (Cons d ds)
      show ?thesis
      proof (cases "d = COMMA")
        case True
        with 4(3) Parsed Cons have "parse_elements rt n (acc @ [v]) ds \<noteq> OutOfFuel" by simp
        from 4(2) [OF Parsed Cons True this] Parsed pv Cons True show ?thesis
          by (simp only: parse_elements.simps parse.case list.case if_True)
      next
        case False
        with Parsed pv Cons show ?thesis
          by (simp only: parse_elements.simps parse.case list.case if_False)
      qed
    qed
  qed
next
  case (5 rt mem s)
  then show ?case by simp
next
  case (6 rt n mem s)
  show ?case
  proof (cases "skip_ws s")
    case Nil
    then show ?thesis by simp
  next
    case sk: (Cons q cs)
    show ?thesis
    proof (cases "q \<noteq> QUOTE")
      case True
      with sk show ?thesis by simp
    next
      case q: False
      show ?thesis
      proof (cases "parse_chars cs")
        case None
        with sk q show ?thesis by simp
      next
        case (Some kr)
        then obtain k r0 where pc: "parse_chars cs = Some (k, r0)" by (cases kr) simp
        show ?thesis
        proof (cases "skip_ws r0")
          case Nil
          with sk q pc show ?thesis by simp
        next
          case sk1: (Cons c r1)
          show ?thesis
          proof (cases "c \<noteq> COLON")
            case True
            with sk q pc sk1 show ?thesis by simp
          next
            case c: False
            from 6(3) sk q pc sk1 c have nf: "parse_value rt n (skip_ws r1) \<noteq> OutOfFuel"
              by (auto split: parse.splits)
            from 6(1) [OF sk q pc refl sk1 c nf]
            have pv: "parse_value rt (Suc n) (skip_ws r1) = parse_value rt n (skip_ws r1)" .
            show ?thesis
            proof (cases "parse_value rt n (skip_ws r1)")
              case OutOfFuel
              with nf show ?thesis by simp
            next
              case Malformed
              with sk q pc sk1 c pv show ?thesis by simp
            next
              case (Parsed v r2)
              show ?thesis
              proof (cases "skip_ws r2")
                case Nil
                with sk q pc sk1 c pv Parsed show ?thesis by simp
              next
                case (Cons d ds)
                show ?thesis
                proof (cases "d = COMMA")
                  case True
                  with 6(3) sk q pc sk1 c Parsed Cons
                  have "parse_members rt n (obj_put k v mem) ds \<noteq> OutOfFuel" by simp
                  from 6(2) [OF sk q pc refl sk1 c Parsed Cons True this]
                    sk q pc sk1 c pv Parsed Cons True
                  show ?thesis by simp
                next
                  case False
                  with sk q pc sk1 c pv Parsed Cons show ?thesis by simp
                qed
              qed
            qed
          qed
        qed
      qed
    qed
  qed
qed

lemma fuel_irrelevant:
  assumes "2 * length s < n"
  shows "parse_value rt (n + k) s = parse_value rt n s"
proof (induction k)
  case 0
  show ?case by simp
next
  case (Suc k)
  from assms have "parse_value rt n s \<noteq> OutOfFuel"
    by (rule enough_fuel(1))
  with Suc have "parse_value rt (n + k) s \<noteq> OutOfFuel"
    by simp
  from more_fuel(1) [OF this] Suc show ?case
    by simp
qed

lemma JSON_parse_rejects:
  "JSON_parse rt s = None \<longleftrightarrow>
     parse_value rt (Suc (2 * length s)) (skip_ws s) = Malformed
     \<or> (\<exists>v r. parse_value rt (Suc (2 * length s)) (skip_ws s) = Parsed v r \<and> skip_ws r \<noteq> [])"
  using JSON_parse_fuel [of rt s]
  by (cases "parse_value rt (Suc (2 * length s)) (skip_ws s)") (simp_all add: JSON_parse_def)

section \<open>Serializing and parsing again\<close>

subsection \<open>Strings\<close>

lemma unat_small: "n < 65536 \<Longrightarrow> unat (of_nat n :: jschar) = n"
  by (simp add: unat_of_nat)

lemma unat_hexdigit:
  assumes "k < 16"
  shows "unat (hexdigit k) = (if k < 10 then 48 + k else 87 + k)"
proof -
  have "unat (of_nat (48 + k) :: jschar) = 48 + k" and "unat (of_nat (87 + k) :: jschar) = 87 + k"
    using assms by (simp_all only: unat_small)
  then show ?thesis
    by (cases "k < 10") (simp_all only: hexdigit_def if_True if_False)
qed

lemma unhex_hexdigit: "k < 16 \<Longrightarrow> unhex (hexdigit k) = Some k"
  by (simp add: unhex_def word_le_nat_alt unat_hexdigit)

lemma hex_digits_sum:
  fixes n :: nat
  shows "4096 * (n div 4096) + 256 * (n div 256 mod 16) + 16 * (n div 16 mod 16) + n mod 16 = n"
proof -
  have a: "n = 16 * (n div 16) + n mod 16"
    by simp
  have "n div 16 div 16 = n div 256"
    by (simp add: div_mult2_eq [symmetric])
  then have b: "n div 16 = 16 * (n div 256) + n div 16 mod 16"
    using mult_div_mod_eq [of 16 "n div 16"] by simp
  have "n div 256 div 16 = n div 4096"
    by (simp add: div_mult2_eq [symmetric])
  then have c: "n div 256 = 16 * (n div 4096) + n div 256 mod 16"
    using mult_div_mod_eq [of 16 "n div 256"] by simp
  from a b c show ?thesis
    by linarith
qed

lemma unhex4_digits:
  fixes c :: jschar
  shows "unhex4 (hexdigit (unat c div 4096)) (hexdigit (unat c div 256 mod 16))
           (hexdigit (unat c div 16 mod 16)) (hexdigit (unat c mod 16)) = Some c"
proof -
  have "unat c < 65536"
    using unsigned_less [of c, where ?'a = nat] by simp
  then have d: "unat c div 4096 < 16"
    by (simp add: less_mult_imp_div_less)
  have u: "unhex (hexdigit (unat c div 4096)) = Some (unat c div 4096)"
    "unhex (hexdigit (unat c div 256 mod 16)) = Some (unat c div 256 mod 16)"
    "unhex (hexdigit (unat c div 16 mod 16)) = Some (unat c div 16 mod 16)"
    "unhex (hexdigit (unat c mod 16)) = Some (unat c mod 16)"
    using d by (simp_all only: unhex_hexdigit mod_less_divisor zero_less_numeral)
  show ?thesis
    unfolding unhex4_def u by (simp only: prod.case option.case hex_digits_sum of_nat_unat ucast_id)
qed

lemma parse_unicode_escape:
  "parse_chars (unicode_escape c @ r) = map_option (\<lambda>(s, t). (c # s, t)) (parse_chars r)"
  by (simp add: unicode_escape_def Let_def unhex4_digits)


lemma parse_literal_unit:
  "c \<noteq> QUOTE \<Longrightarrow> c \<noteq> BACKSLASH \<Longrightarrow> \<not> c < 0x20 \<Longrightarrow>
     parse_chars (c # r) = map_option (\<lambda>(s, t). (c # s, t)) (parse_chars r)"
  by simp

lemma surrogate_literal:
  assumes "is_high_surrogate c \<or> is_low_surrogate c"
  shows "c \<noteq> QUOTE" and "c \<noteq> BACKSLASH" and "\<not> c < 0x20"
  using assms by (auto simp: is_high_surrogate_def is_low_surrogate_def word_le_nat_alt word_less_nat_alt)

lemma parse_quote_unit:
  "parse_chars (quote_unit c @ r) = map_option (\<lambda>(s, t). (c # s, t)) (parse_chars r)"
  by (simp add: quote_unit_def parse_unicode_escape unescape_def)

lemma parse_quote_chars: "parse_chars (quote_chars s @ QUOTE # rest) = Some (s, rest)"
proof (induction s rule: quote_chars.induct)
  case 1
  show ?case by simp
next
  case (2 c cs)
  show ?case
  proof (cases "is_high_surrogate c")
    case high: True
    show ?thesis
    proof (cases cs)
      case Nil
      with high show ?thesis
        by (simp add: parse_unicode_escape)
    next
      case (Cons d ds)
      show ?thesis
      proof (cases "is_low_surrogate d")
        case True
        with high Cons 2(1) have ih: "parse_chars (quote_chars ds @ QUOTE # rest) = Some (ds, rest)"
          by simp
        have "parse_chars (c # d # quote_chars ds @ QUOTE # rest) = Some (c # d # ds, rest)"
          using high True surrogate_literal [of c] surrogate_literal [of d] ih
          by (simp only: parse_literal_unit option.map prod.case simp_thms)
        with high Cons True show ?thesis
          by simp
      next
        case False
        with high Cons 2(2) have ih: "parse_chars (quote_chars cs @ QUOTE # rest) = Some (cs, rest)"
          by simp
        with high Cons False show ?thesis
          by (simp add: parse_unicode_escape)
      qed
    qed
  next
    case nothigh: False
    show ?thesis
    proof (cases "is_low_surrogate c")
      case True
      with nothigh 2(3) have "parse_chars (quote_chars cs @ QUOTE # rest) = Some (cs, rest)"
        by simp
      with nothigh True show ?thesis
        by (simp add: parse_unicode_escape)
    next
      case False
      with nothigh 2(4) have "parse_chars (quote_chars cs @ QUOTE # rest) = Some (cs, rest)"
        by simp
      with nothigh False show ?thesis
        by (simp add: parse_quote_unit del: parse_chars.simps)
    qed
  qed
qed


subsection \<open>Values\<close>

lemma ser_first:
  assumes "lossless v"
  shows "\<exists>c t. ser rt v = c # t \<and> c \<noteq> RBRACK \<and> c \<noteq> RBRACE \<and> \<not> is_json_ws c"
  using assms by (cases v) (simp_all add: js_def quote_json_def is_json_ws_def)

lemma skip_ws_value: "lossless v \<Longrightarrow> skip_ws (ser rt v @ r) = ser rt v @ r"
  using ser_first [of v rt] by (auto simp: skip_ws_def)

lemma ser_elements_first:
  assumes "lossless_elements xs" and "xs \<noteq> []"
  shows "\<exists>c t. ser_elements rt xs = c # t \<and> c \<noteq> RBRACK \<and> \<not> is_json_ws c"
proof (cases xs)
  case Nil
  with assms show ?thesis by simp
next
  case (Cons v vs)
  with assms have "lossless v" by simp
  from ser_first [OF this, of rt] show ?thesis
    using Cons by (cases vs) auto
qed

lemma ser_members_first:
  assumes "kvs \<noteq> []"
  shows "\<exists>t. ser_members rt kvs = QUOTE # t"
proof (cases kvs)
  case Nil
  with assms show ?thesis by simp
next
  case (Cons kv kvs')
  then show ?thesis
    by (cases kv; cases kvs') (simp_all add: quote_json_def)
qed

lemma put_all_Cons: "put_all acc ((k, v) # kvs) = put_all (obj_put k v acc) kvs"
  by (simp add: put_all_def)

lemma roundtrip_aux:
  "lossless v \<Longrightarrow> length (ser rt v) \<le> n \<Longrightarrow> parse_value rt n (ser rt v @ rest) = Parsed v rest"
  "lossless_elements xs \<Longrightarrow> xs \<noteq> [] \<Longrightarrow> length (ser_elements rt xs) < n \<Longrightarrow>
     parse_elements rt n acc (ser_elements rt xs @ RBRACK # rest) = Parsed (acc @ xs) rest"
  "lossless_members kvs \<Longrightarrow> kvs \<noteq> [] \<Longrightarrow> length (ser_members rt kvs) < n \<Longrightarrow>
     parse_members rt n mem (ser_members rt kvs @ RBRACE # rest) = Parsed (put_all mem kvs) rest"
proof (induction rt v and rt xs and rt kvs arbitrary: n rest and n acc rest and n mem rest
    rule: ser_ser_elements_ser_members.induct)
  case (1 rt)
  then obtain m where "n = Suc m" by (cases n) (simp_all add: js_def)
  then show ?case by (simp add: js_def)
next
  case (2 rt b)
  then obtain m where "n = Suc m" by (cases n) (simp_all add: js_def split: if_splits)
  then show ?case by (simp add: js_def)
next
  case (3 rt x)
  then show ?case by simp
next
  case (4 rt s)
  then obtain m where "n = Suc m" by (cases n) (simp_all add: quote_json_def)
  then show ?case by (simp add: quote_json_def parse_quote_chars)
next
  case (5 rt xs)
  from 5(3) obtain m where n: "n = Suc m" by (cases n) simp_all
  show ?case
  proof (cases "xs = []")
    case True
    with n show ?thesis by (simp add: skip_ws_def is_json_ws_def)
  next
    case False
    from 5(2) have le: "lossless_elements xs" by simp
    from ser_elements_first [OF le False, of rt] obtain c t
      where ct: "ser_elements rt xs = c # t" and c: "c \<noteq> RBRACK" "\<not> is_json_ws c"
      by blast
    from 5(3) n have "length (ser_elements rt xs) < m" by simp
    from 5(1) [OF le False this, of "[]" rest]
    have "parse_elements rt m [] (c # t @ RBRACK # rest) = Parsed xs rest"
      by (simp add: ct)
    with n c ct show ?thesis
      by (simp add: skip_ws_def)
  qed
next
  case (6 rt kvs)
  from 6(3) obtain m where n: "n = Suc m" by (cases n) simp_all
  show ?case
  proof (cases "kvs = []")
    case True
    with n show ?thesis by (simp add: skip_ws_def is_json_ws_def)
  next
    case False
    from 6(2) have lm: "lossless_members kvs" and canon: "put_all [] kvs = kvs" by simp_all
    from ser_members_first [OF False, of rt] obtain t
      where t: "ser_members rt kvs = QUOTE # t"
      by blast
    from 6(3) n have "length (ser_members rt kvs) < m" by simp
    from 6(1) [OF lm False this, of "[]" rest] canon
    have "parse_members rt m [] (QUOTE # t @ RBRACE # rest) = Parsed kvs rest"
      by (simp add: t)
    with n t show ?thesis
      by (simp add: skip_ws_def is_json_ws_def)
  qed
next
  case (7 rt)
  then show ?case by simp
next
  case (8 rt v)
  from 8(4) obtain m where n: "n = Suc m" by (cases n) simp_all
  from 8(2) have lv: "lossless v" by simp
  from 8(4) n have "length (ser rt v) \<le> m" by simp
  from 8(1) [OF lv this, of "RBRACK # rest"]
  have "parse_value rt m (ser rt v @ RBRACK # rest) = Parsed v (RBRACK # rest)" .
  with n lv show ?case
    by (simp add: skip_ws_value) (simp add: skip_ws_def is_json_ws_def)
next
  case (9 rt v w vs)
  from 9(5) obtain m where n: "n = Suc m" by (cases n) simp_all
  from 9(3) have lv: "lossless v" and lw: "lossless_elements (w # vs)" by simp_all
  from 9(5) n have "length (ser rt v) \<le> m" and len: "length (ser_elements rt (w # vs)) < m"
    by simp_all
  from 9(1) [OF lv this(1), of "COMMA # ser_elements rt (w # vs) @ RBRACK # rest"]
  have pv: "parse_value rt m (ser rt v @ COMMA # ser_elements rt (w # vs) @ RBRACK # rest)
      = Parsed v (COMMA # ser_elements rt (w # vs) @ RBRACK # rest)" .
  from 9(2) [OF lw _ len, of "acc @ [v]" rest]
  have pe: "parse_elements rt m (acc @ [v]) (ser_elements rt (w # vs) @ RBRACK # rest)
      = Parsed (acc @ v # w # vs) rest"
    by simp
  from n lv pv pe show ?case
    by (simp add: skip_ws_value) (simp add: skip_ws_def is_json_ws_def)
next
  case (10 rt)
  then show ?case by simp
next
  case (11 rt k v)
  from 11(4) obtain m where n: "n = Suc m" by (cases n) simp_all
  from 11(2) have lv: "lossless v" by simp
  from 11(4) n have "length (ser rt v) \<le> m" by (simp add: quote_json_def)
  from 11(1) [OF lv this, of "RBRACE # rest"]
  have pv: "parse_value rt m (ser rt v @ RBRACE # rest) = Parsed v (RBRACE # rest)" .
  have sk: "skip_ws (QUOTE # r) = QUOTE # r" "skip_ws (COLON # r) = COLON # r"
    "skip_ws (RBRACE # r) = RBRACE # r" for r
    by (simp_all add: skip_ws_def is_json_ws_def)
  from n lv pv show ?case
    by (simp add: quote_json_def sk parse_quote_chars skip_ws_value put_all_def)
next
  case (12 rt k v kv kvs)
  from 12(5) obtain m where n: "n = Suc m" by (cases n) simp_all
  from 12(3) have lv: "lossless v" and lk: "lossless_members (kv # kvs)" by simp_all
  from 12(5) n have "length (ser rt v) \<le> m" and len: "length (ser_members rt (kv # kvs)) < m"
    by (simp_all add: quote_json_def)
  from 12(1) [OF lv this(1), of "COMMA # ser_members rt (kv # kvs) @ RBRACE # rest"]
  have pv: "parse_value rt m (ser rt v @ COMMA # ser_members rt (kv # kvs) @ RBRACE # rest)
      = Parsed v (COMMA # ser_members rt (kv # kvs) @ RBRACE # rest)" .
  from 12(2) [OF lk _ len, of "obj_put k v mem" rest]
  have pm: "parse_members rt m (obj_put k v mem) (ser_members rt (kv # kvs) @ RBRACE # rest)
      = Parsed (put_all (obj_put k v mem) (kv # kvs)) rest"
    by simp
  have sk: "skip_ws (QUOTE # r) = QUOTE # r" "skip_ws (COLON # r) = COLON # r"
    "skip_ws (COMMA # r) = COMMA # r" for r
    by (simp_all add: skip_ws_def is_json_ws_def)
  from n lv pv pm show ?case
    by (simp add: quote_json_def sk parse_quote_chars skip_ws_value put_all_Cons)
qed


lemma roundtrip:
  assumes "lossless v"
  shows "JSON_parse rt (JSON_stringify rt v) = Some v"
proof -
  have "parse_value rt (Suc (2 * length (ser rt v))) (ser rt v @ []) = Parsed v []"
    using assms by (rule roundtrip_aux(1)) simp
  moreover have "skip_ws (ser rt v) = ser rt v"
    using skip_ws_value [OF assms, of rt "[]"] by simp
  ultimately show ?thesis
    by (simp add: JSON_parse_def JSON_stringify_def skip_ws_def)
qed

lemma strings_lossless: "lossless_elements (map JStr ids)"
  by (induction ids) simp_all

lemma lossless_statement:
  assumes "lossless_elements (aws_PrincipalOrgID (ForAnyValue_StringEquals (Condition st)))"
  shows "lossless (json_of_statement st)"
proof -
  have "put_all [] [(js ''Sid'', a), (js ''Effect'', b), (js ''Principal'', c), (js ''Action'', d),
      (js ''Resource'', e), (js ''Condition'', f)]
    = [(js ''Sid'', a), (js ''Effect'', b), (js ''Principal'', c), (js ''Action'', d),
      (js ''Resource'', e), (js ''Condition'', f)]" for a b c d e f
    by (simp add: put_all_def obj_put_def js_def is_array_index_def is_digit_def)
  moreover have "put_all [] [(k, x)] = [(k, x)]" for k x
    by (simp add: put_all_def obj_put_def)
  ultimately show ?thesis
    using assms by (simp add: json_of_statement_def)
qed

lemma lossless_policy:
  assumes "build_policy accounts = Some p" and "lossless_elements accounts"
  shows "lossless (json_of_policy p)"
proof -
  have "put_all [] [(js ''Version'', a), (js ''Statement'', b)]
      = [(js ''Version'', a), (js ''Statement'', b)]" for a b
    by (simp add: put_all_def obj_put_def js_def is_array_index_def is_digit_def)
  moreover from assms have "Statement p =
      [\<lparr>Sid = js ''AllowAccessForAllowedAccounts'', Effect = js ''Allow'', Principal = js ''*'',
        Action = js ''execute-api:Invoke'', Resource = js ''*'',
        Condition = \<lparr>ForAnyValue_StringEquals = \<lparr>aws_PrincipalOrgID = accounts\<rparr>\<rparr>\<rparr>]"
    by (auto simp: build_policy_def split: if_splits)
  ultimately show ?thesis
    using assms(2) by (simp add: json_of_policy_def lossless_statement)
qed

text \<open>
  C8 (as the program has it). A policy document built from an allow-list of lossless
  values (strings among them) is returned by \<open>JSON.parse\<close> from the text that
  \<open>JSON.stringify\<close> wrote for it.
\<close>

theorem policy_roundtrip:
  assumes "build_policy accounts = Some p" and "lossless_elements accounts"
  shows "JSON_parse rt (JSON_stringify rt (json_of_policy p)) = Some (json_of_policy p)"
  using assms by (intro roundtrip lossless_policy)

theorem policy_roundtrip_witness:
  "build_policy [JStr (js ''o-abc''), JStr (js ''o-xyz'')] \<noteq> None
   \<and> lossless_elements [JStr (js ''o-abc''), JStr (js ''o-xyz'')]
   \<and> JSON_parse zero_runtime (JSON_stringify zero_runtime
        (json_of_policy (the (build_policy [JStr (js ''o-abc''), JStr (js ''o-xyz'')]))))
      = Some (json_of_policy (the (build_policy [JStr (js ''o-abc''), JStr (js ''o-xyz'')])))"
proof -
  let ?acc = "[JStr (js ''o-abc''), JStr (js ''o-xyz'')]"
  obtain p where p: "build_policy ?acc = Some p"
    by (simp add: build_policy_def)
  have l: "lossless_elements ?acc"
    by simp
  from policy_roundtrip [OF p l, of zero_runtime] p l show ?thesis
    by simp
qed

lemma infinity_not_finite: "\<not> isFinite 0x7FF0000000000000"
  by (simp add: isFinite_def)

text \<open>
  C8 as stated fails: a file holding \<open>[1e999]\<close> gives an allow-list with the number
  \<open>+Infinity\<close>; the serialized policy says \<open>null\<close> in its place, and parsing returns a
  different document.
\<close>

theorem policy_roundtrip_counterexample:
  "allowedAccounts overflow_runtime [js ''ALLOWED_ACCOUNTS_FILE'' \<mapsto> js ''accounts.json'']
      [js ''accounts.json'' \<mapsto> js ''[1e999]'']
     = ([], Inr [JNum 0x7FF0000000000000])
   \<and> JSON_parse overflow_runtime (JSON_stringify overflow_runtime
        (json_of_policy (the (build_policy [JNum 0x7FF0000000000000]))))
     = Some (json_of_policy (the (build_policy [JNull])))
   \<and> json_of_policy (the (build_policy [JNull]))
     \<noteq> json_of_policy (the (build_policy [JNum 0x7FF0000000000000]))"
proof -
  have a: "allowedAccounts overflow_runtime [js ''ALLOWED_ACCOUNTS_FILE'' \<mapsto> js ''accounts.json'']
      [js ''accounts.json'' \<mapsto> js ''[1e999]''] = ([], Inr [JNum 0x7FF0000000000000])"
    by (simp add: allowedAccounts_def truthy_def try_read_def json_eval overflow_runtime_def)
  have s: "JSON_stringify overflow_runtime (json_of_policy (the (build_policy [JNum 0x7FF0000000000000])))
      = JSON_stringify overflow_runtime (json_of_policy (the (build_policy [JNull])))"
    by (simp add: JSON_stringify_def json_of_policy_def json_of_statement_def build_policy_def
        infinity_not_finite)
  obtain p where p: "build_policy [JNull] = Some p"
    by (simp add: build_policy_def)
  have "lossless (json_of_policy p)"
    using p by (rule lossless_policy) simp
  then have "JSON_parse overflow_runtime (JSON_stringify overflow_runtime (json_of_policy p))
      = Some (json_of_policy p)"
    by (rule roundtrip)
  with p s have b: "JSON_parse overflow_runtime (JSON_stringify overflow_runtime
        (json_of_policy (the (build_policy [JNum 0x7FF0000000000000]))))
     = Some (json_of_policy (the (build_policy [JNull])))"
    by simp
  have c: "json_of_policy (the (build_policy [JNull]))
     \<noteq> json_of_policy (the (build_policy [JNum 0x7FF0000000000000]))"
    by (simp add: json_of_policy_def json_of_statement_def build_policy_def)
  from a b c show ?thesis by simp
qed

section \<open>The diagnostic endpoint\<close>

text \<open>
  The two objects that the handler hands to \<open>c.json\<close> list their properties as the
  parser builds them, so they are lossless when their values are.
\<close>

lemma failure_body_lossless:
  "lossless (JObj [(js ''message'', JStr m), (js ''error'', JStr e)])"
  by (simp add: put_all_def obj_put_def js_def is_array_index_def is_digit_def)








text \<open>
  C5 (as the program has it). When the identity call fails and the normalized message
  exists, both variants of the handler answer 500, and the body is the JSON text of the
  object that holds the fixed failure message and that message as \<open>error\<close>; parsing the
  body gives the object back. The message of an instance of \<open>Error\<close> is its \<open>message\<close>;
  for every other thrown value it is \<open>String(value)\<close>: the string itself, \<open>undefined\<close>,
  \<open>null\<close>, \<open>true\<close> or \<open>false\<close>, the decimal text of a number, and \<open>[object Object]\<close>
  for an object without an own \<open>toString\<close>, whether or not it has a \<open>message\<close>.
\<close>

theorem failure_response:
  "(errorMsg rt error = Some msg \<longrightarrow>
      snd (debug_handler_ctx rt req (Rejected error)) =
        Inr \<lparr>status = 500,
             body = JSON_stringify rt
               (JObj [(js ''message'', JStr (js ''Error retrieving caller identity'')),
                      (js ''error'', JStr msg)])\<rparr>
      \<and> snd (debug_handler rt req (Rejected error)) =
        Inr \<lparr>status = 500,
             body = JSON_stringify rt
               (JObj [(js ''message'', JStr (js ''Error retrieving caller identity'')),
                      (js ''error'', JStr msg)])\<rparr>
      \<and> JSON_parse rt (JSON_stringify rt
               (JObj [(js ''message'', JStr (js ''Error retrieving caller identity'')),
                      (js ''error'', JStr msg)]))
          = Some (JObj [(js ''message'', JStr (js ''Error retrieving caller identity'')),
                        (js ''error'', JStr msg)]))
   \<and> errorMsg rt (ErrorInstance message stack) = Some message
   \<and> errorMsg rt (ThrownValue (JStr s)) = Some s
   \<and> errorMsg rt ThrownUndefined = Some (js ''undefined'')
   \<and> errorMsg rt (ThrownValue JNull) = Some (js ''null'')
   \<and> errorMsg rt (ThrownValue (JBool b)) = Some (if b then js ''true'' else js ''false'')
   \<and> errorMsg rt (ThrownValue (JNum n)) = Some (NumberToString rt n)
   \<and> (map_of kvs (js ''toString'') = None \<longrightarrow>
        errorMsg rt (ThrownValue (JObj kvs)) = Some (js ''[object Object]''))"
proof -
  have "JSON_parse rt (JSON_stringify rt
               (JObj [(js ''message'', JStr (js ''Error retrieving caller identity'')),
                      (js ''error'', JStr msg)]))
          = Some (JObj [(js ''message'', JStr (js ''Error retrieving caller identity'')),
                        (js ''error'', JStr msg)])"
    by (intro roundtrip failure_body_lossless)
  then show ?thesis
    by (simp add: debug_handler_ctx_def debug_handler_def report_identity_def c_json_def errorMsg_def)
qed

theorem failure_response_witness:
  "errorMsg zero_runtime (ThrownValue (JStr (js ''boom''))) = Some (js ''boom'')
   \<and> snd (debug_handler zero_runtime
        \<lparr>headers = [], url = js ''/debug'', method_name = js ''GET'', requestContext = JNull\<rparr>
        (Rejected (ThrownValue (JStr (js ''boom''))))) =
        Inr \<lparr>status = 500,
             body = JSON_stringify zero_runtime
               (JObj [(js ''message'', JStr (js ''Error retrieving caller identity'')),
                      (js ''error'', JStr (js ''boom''))])\<rparr>
   \<and> JSON_parse zero_runtime (JSON_stringify zero_runtime
               (JObj [(js ''message'', JStr (js ''Error retrieving caller identity'')),
                      (js ''error'', JStr (js ''boom''))]))
     = Some (JObj [(js ''message'', JStr (js ''Error retrieving caller identity'')),
                   (js ''error'', JStr (js ''boom''))])"
  using failure_response [where rt = zero_runtime and error = "ThrownValue (JStr (js ''boom''))"
      and msg = "js ''boom''" and s = "js ''boom''"
      and req = "\<lparr>headers = [], url = js ''/debug'', method_name = js ''GET'', requestContext = JNull\<rparr>"]
  by simp

text \<open>
  C5 as stated fails twice. A thrown object that is no \<open>Error\<close> but carries a \<open>message\<close>
  is reported as \<open>[object Object]\<close>, not by its message; and for a thrown object with an
  own \<open>toString\<close> property the conversion throws inside the \<open>catch\<close> block, so the
  handler throws \<open>TypeError\<close>.
\<close>

theorem failure_response_counterexample:
  "snd (debug_handler zero_runtime
        \<lparr>headers = [], url = js ''/debug'', method_name = js ''GET'', requestContext = JNull\<rparr>
        (Rejected (ThrownValue (JObj [(js ''message'', JStr (js ''timeout''))])))) =
        Inr \<lparr>status = 500,
             body = JSON_stringify zero_runtime
               (JObj [(js ''message'', JStr (js ''Error retrieving caller identity'')),
                      (js ''error'', JStr (js ''[object Object]''))])\<rparr>
   \<and> JSON_parse zero_runtime (JSON_stringify zero_runtime
               (JObj [(js ''message'', JStr (js ''Error retrieving caller identity'')),
                      (js ''error'', JStr (js ''[object Object]''))]))
     = Some (JObj [(js ''message'', JStr (js ''Error retrieving caller identity'')),
                   (js ''error'', JStr (js ''[object Object]''))])
   \<and> js ''[object Object]'' \<noteq> js ''timeout''
   \<and> snd (debug_handler zero_runtime
        \<lparr>headers = [], url = js ''/debug'', method_name = js ''GET'', requestContext = JNull\<rparr>
        (Rejected (ThrownValue (JObj [(js ''toString'', JNull)])))) = Inl TypeError"
proof -
  have "JSON_parse zero_runtime (JSON_stringify zero_runtime
               (JObj [(js ''message'', JStr (js ''Error retrieving caller identity'')),
                      (js ''error'', JStr (js ''[object Object]''))]))
     = Some (JObj [(js ''message'', JStr (js ''Error retrieving caller identity'')),
                   (js ''error'', JStr (js ''[object Object]''))])"
    by (intro roundtrip failure_body_lossless)
  moreover have "js ''[object Object]'' \<noteq> js ''timeout''"
    by (simp add: js_def)
  moreover have "map_of [(js ''message'', JStr (js ''timeout''))] (js ''toString'') = None"
    and "map_of [(js ''toString'', JNull)] (js ''toString'') \<noteq> None"
    by (simp_all add: js_def)
  ultimately show ?thesis
    by (simp add: debug_handler_def report_identity_def c_json_def errorMsg_def)
qed

end
